theory Spec2Isabelle
  imports Complex_Main "HOL-Library.Word" "HOL-Library.AList"
begin

section \<open>Ephemeral store (forensic\_resistant\_storage.py)\<close>

text \<open>
  The store is a Python dict from token to an entry dict; the ciphertext of an entry is a
  mutable \<open>bytearray\<close> object.  Objects that can be shared or overwritten in place live in
  an explicit heap (address to contents), so that "a fresh copy" is a statement about
  addresses.  Clock readings (\<open>time.time()\<close>) are passed in as rational numbers; the
  forensic id (a hash over token, time and random bytes) is passed in as an opaque string.
\<close>

type_synonym token = string
type_synonym bytes = "8 word list"
type_synonym addr = nat

record entry =
  ciphertext :: addr
  expire_at :: rat
  read :: bool
  created_at :: rat
  access_count :: int
  forensic_id :: string

record storage =
  store :: "(token \<times> entry) list"
  heap :: "addr \<Rightarrow> bytes"
  next_addr :: addr
  deletion_queue :: "token list"

record get_result =
  r_ciphertext :: addr
  r_expire_at :: rat
  r_read :: bool
  r_forensic_id :: string

definition empty_storage :: storage where
  "empty_storage = \<lparr>store = [], heap = (\<lambda>_. []), next_addr = 0, deletion_queue = []\<rparr>"

text \<open>Allocation of a new byte object with the given contents.\<close>

definition alloc :: "storage \<Rightarrow> bytes \<Rightarrow> addr \<times> storage" where
  "alloc s data =
     (next_addr s, s\<lparr>heap := (heap s)(next_addr s := data), next_addr := Suc (next_addr s)\<rparr>)"

text \<open>
  \<open>put\<close>: \<open>secure_allocate(len(ciphertext))\<close> makes a random bytearray and the slice
  assignment \<open>secure_ciphertext[:] = ciphertext\<close> replaces its whole contents, so the new
  object holds exactly the ciphertext.  There is no check of \<open>ttl_seconds\<close> and no raise.
\<close>

definition put :: "storage \<Rightarrow> token \<Rightarrow> bytes \<Rightarrow> int \<Rightarrow> rat \<Rightarrow> string \<Rightarrow> storage" where
  "put s tok c ttl_seconds now fid =
     (let exp = now + of_int ttl_seconds;
          (a, s1) = alloc s c
      in s1\<lparr>store := AList.update tok
            \<lparr>ciphertext = a, expire_at = exp, read = False, created_at = now,
             access_count = 0, forensic_id = fid\<rparr> (store s1)\<rparr>)"

definition queue_secure_deletion :: "storage \<Rightarrow> token \<Rightarrow> storage" where
  "queue_secure_deletion s tok =
     (if tok \<in> set (deletion_queue s) then s
      else s\<lparr>deletion_queue := deletion_queue s @ [tok]\<rparr>)"

text \<open>
  \<open>get\<close>: absent when the token is unknown; absent (and queued) when
  \<open>time.time() > entry["expire_at"]\<close>; otherwise the access count is incremented and a
  new dict is returned whose ciphertext is \<open>bytes(entry["ciphertext"])\<close>, a new object.
\<close>

definition get :: "storage \<Rightarrow> token \<Rightarrow> rat \<Rightarrow> get_result option \<times> storage" where
  "get s tok now =
     (case map_of (store s) tok of
        None \<Rightarrow> (None, s)
      | Some e \<Rightarrow>
          if now > expire_at e then (None, queue_secure_deletion s tok)
          else
            (let s1 = s\<lparr>store := AList.update tok
                        (e\<lparr>access_count := access_count e + 1\<rparr>) (store s)\<rparr>;
                 (b, s2) = alloc s1 (heap s1 (ciphertext e))
             in (Some \<lparr>r_ciphertext = b, r_expire_at = expire_at e, r_read = read e,
                       r_forensic_id = forensic_id e\<rparr>, s2)))"

definition mark_read_and_delete :: "storage \<Rightarrow> token \<Rightarrow> bool \<times> storage" where
  "mark_read_and_delete s tok =
     (if map_of (store s) tok = None then (False, s)
      else (True, queue_secure_deletion s tok))"

text \<open>\<open>int(max(0, expire_at - now))\<close> truncates a non-negative float, which is the floor.\<close>

definition ttl_remaining :: "storage \<Rightarrow> token \<Rightarrow> rat \<Rightarrow> int option \<times> storage" where
  "ttl_remaining s tok now =
     (case map_of (store s) tok of
        None \<Rightarrow> (None, s)
      | Some e \<Rightarrow>
          (let remaining = \<lfloor>max 0 (expire_at e - now)\<rfloor>
           in if remaining = 0 then (None, queue_secure_deletion s tok)
              else (Some remaining, s)))"

text \<open>
  \<open>secure_deallocate\<close> overwrites the bytearray in place: zeros, then all-ones, then
  random bytes, as many of these as \<open>passes\<close> allows, then further random passes.  Only the
  contents after the last pass remain.  The random source \<open>secrets.token_bytes\<close> is the
  parameter \<open>rnd\<close>.
\<close>

definition token_bytes :: "(nat \<Rightarrow> 8 word) \<Rightarrow> nat \<Rightarrow> bytes" where
  "token_bytes rnd n = map rnd [0..<n]"

definition secure_deallocate :: "(nat \<Rightarrow> 8 word) \<Rightarrow> bytes \<Rightarrow> int \<Rightarrow> bytes" where
  "secure_deallocate rnd data passes =
     (if passes \<le> 0 then data
      else if passes = 1 then replicate (length data) 0
      else if passes = 2 then replicate (length data) 255
      else token_bytes rnd (length data))"

text \<open>
  \<open>_secure_delete_entry\<close> pops the entry, wipes its ciphertext bytearray (once directly
  and once more in the loop over the entry's keys) and drops the entry.
\<close>

definition secure_delete_entry :: "(nat \<Rightarrow> 8 word) \<Rightarrow> int \<Rightarrow> storage \<Rightarrow> token \<Rightarrow> storage" where
  "secure_delete_entry rnd passes s tok =
     (case map_of (store s) tok of
        None \<Rightarrow> s
      | Some e \<Rightarrow>
          s\<lparr>store := AList.delete tok (store s),
            heap := (heap s)(ciphertext e :=
               secure_deallocate rnd (secure_deallocate rnd (heap s (ciphertext e)) passes) passes)\<rparr>)"

text \<open>
  One iteration of \<open>_secure_cleanup_loop\<close>: the queue is copied and cleared, every queued
  token is securely deleted, then every entry with \<open>expire_at <= now\<close> is queued.
\<close>

definition cleanup_tick :: "(nat \<Rightarrow> 8 word) \<Rightarrow> int \<Rightarrow> storage \<Rightarrow> rat \<Rightarrow> storage" where
  "cleanup_tick rnd passes s now =
     (let tokens_to_delete = deletion_queue s;
          s1 = foldl (secure_delete_entry rnd passes) (s\<lparr>deletion_queue := []\<rparr>) tokens_to_delete;
          expired_tokens = map fst (filter (\<lambda>(t, e). expire_at e \<le> now) (store s1))
      in foldl queue_secure_deletion s1 expired_tokens)"

text \<open>Every stored ciphertext reference points to an allocated object.\<close>

definition wf_storage :: "storage \<Rightarrow> bool" where
  "wf_storage s = list_all (\<lambda>(t, e). ciphertext e < next_addr s) (store s)"

section \<open>Anomaly scorer (ml\_adapter.py)\<close>

text \<open>
  A Python float is a finite value, an infinity or NaN.  Finite values are modelled by
  rationals (every float is one); the comparisons of the source are against constants and
  are exact there.  Every comparison with NaN is false.
\<close>

datatype pyfloat = Fin rat | PInf | NInf | NaN

fun fl_less :: "pyfloat \<Rightarrow> pyfloat \<Rightarrow> bool" where
  "fl_less NaN _ = False"
| "fl_less _ NaN = False"
| "fl_less (Fin a) (Fin b) = (a < b)"
| "fl_less NInf NInf = False"
| "fl_less NInf _ = True"
| "fl_less _ NInf = False"
| "fl_less PInf _ = False"
| "fl_less _ PInf = True"




text \<open>
  An element of a vector handed to the adapter either converts with \<open>float(x)\<close> or makes
  it raise (\<open>NotNum\<close>: a string that is no number, \<open>None\<close>, a nested list).
\<close>

datatype vecelem = Num pyfloat | NotNum

fun to_floats :: "vecelem list \<Rightarrow> pyfloat list option" where
  "to_floats [] = Some []"
| "to_floats (NotNum # _) = None"
| "to_floats (Num f # xs) = (case to_floats xs of None \<Rightarrow> None | Some fs \<Rightarrow> Some (f # fs))"

record ml_adapter =
  model :: "(pyfloat list \<Rightarrow> pyfloat option) option"
  scaler :: "(pyfloat list \<Rightarrow> pyfloat list option) option"
  buffer :: "pyfloat list list"
  max_buffer :: int
  trained :: bool

text \<open>
  The fitted isolation forest and scaler are library objects: \<open>model\<close> is its
  \<open>decision_function\<close> on one row and \<open>scaler\<close> its \<open>transform\<close>, each \<open>None\<close> where
  the call raises.  A new adapter (no persisted model) is untrained with an empty buffer.
\<close>

definition new_adapter :: ml_adapter where
  "new_adapter = \<lparr>model = None, scaler = None, buffer = [], max_buffer = 10000, trained = False\<rparr>"

definition add_observation :: "ml_adapter \<Rightarrow> vecelem list \<Rightarrow> ml_adapter" where
  "add_observation a vector =
     (case to_floats vector of
        None \<Rightarrow> a
      | Some vec \<Rightarrow>
          (let b = buffer a @ [vec]
           in a\<lparr>buffer := (if int (length b) > max_buffer a then tl b else b)\<rparr>))"











section \<open>Policy engine (policy.py)\<close>

record policy_config =
  thresh_allow :: int
  thresh_reauth :: int
  shadow_mode :: bool
  canary_fraction :: rat
  exception_quota :: int
  exception_window_sec :: int

definition default_config :: policy_config where
  "default_config = \<lparr>thresh_allow = 70, thresh_reauth = 40, shadow_mode = False,
     canary_fraction = 1, exception_quota = 5, exception_window_sec = 24 * 3600\<rparr>"

datatype action = Allow | RequireReauth | Block | PendingApproval

record metadata_summary =
  ms_exception_flag :: bool
  ms_padded_size :: "int option"
  ms_dest_count :: "int option"

record audit_event =
  ev_ts :: int
  ev_token_hash :: string
  ev_action :: action
  ev_policy :: action
  ev_risk :: int
  ev_reason :: string
  ev_client_ip_hash :: "string option"
  ev_metadata_summary :: metadata_summary
  ev_actor :: "string option"

record policy_state =
  exception_events :: "string \<Rightarrow> rat list"
  audit_log :: "audit_event list"

definition empty_policy_state :: policy_state where
  "empty_policy_state = \<lparr>exception_events = (\<lambda>_. []), audit_log = []\<rparr>"

record decision =
  d_action :: action
  d_policy :: action
  d_enforced :: bool
  d_reason :: string
  d_token_hash :: string

text \<open>Lower-case hexadecimal of a byte string (\<open>hexdigest\<close>, \<open>bytes.hex\<close>).\<close>

definition hex_digit :: "nat \<Rightarrow> char" where
  "hex_digit n = ''0123456789abcdef'' ! (n mod 16)"

definition hex_of_bytes :: "bytes \<Rightarrow> string" where
  "hex_of_bytes bs = concat (map (\<lambda>b. [hex_digit (unat b div 16), hex_digit (unat b mod 16)]) bs)"

text \<open>
  The hash function is the library's SHA-256, a parameter \<open>sha\<close> from the text to the
  digest bytes.  \<open>_opaque_id\<close> is its hexadecimal digest.
\<close>

definition opaque_id :: "(string \<Rightarrow> bytes) \<Rightarrow> string \<Rightarrow> string" where
  "opaque_id sha val = hex_of_bytes (sha val)"

definition within_exception_quota ::
    "policy_config \<Rightarrow> policy_state \<Rightarrow> string \<Rightarrow> rat \<Rightarrow> bool \<times> policy_state" where
  "within_exception_quota cfg st key now =
     (let window_start = now - of_int (exception_window_sec cfg);
          events = filter (\<lambda>ts. ts \<ge> window_start) (exception_events st key)
      in if int (length events) \<ge> exception_quota cfg
         then (False, st\<lparr>exception_events := (exception_events st)(key := events)\<rparr>)
         else (True, st\<lparr>exception_events := (exception_events st)(key := events @ [now])\<rparr>))"

definition int_from_bytes_big :: "bytes \<Rightarrow> nat" where
  "int_from_bytes_big bs = foldl (\<lambda>acc b. acc * 256 + unat b) 0 bs"

text \<open>
  The conversion of a non-negative Python \<open>int\<close> to \<open>float\<close>, as the integer it
  denotes: exact below \<open>2^53\<close>, otherwise rounded to 53 significant bits with ties to
  even.  (The values converted here are below \<open>2^64\<close>, far from overflow.)
\<close>

fun bit_length :: "nat \<Rightarrow> nat" where
  "bit_length n = (if n = 0 then 0 else Suc (bit_length (n div 2)))"

declare bit_length.simps [simp del]

definition int_to_float :: "nat \<Rightarrow> nat" where
  "int_to_float n =
     (if n < 2 ^ 53 then n
      else (let e = bit_length n - 53;
                q = n div 2 ^ e;
                r = n mod 2 ^ e;
                half = 2 ^ (e - 1)
            in (if r > half \<or> (r = half \<and> odd q) then q + 1 else q) * 2 ^ e))"

text \<open>
  \<open>_should_enforce_canary\<close>.  In \<open>int.from_bytes(h[:8], "big") / float(2**64)\<close> the
  integer is first converted to a float (rounded as above); the division by a power of two
  and the comparison with the fraction are exact.  The \<open>except\<close> branch needs a token
  that cannot be encoded, which no string of this model is.
\<close>

definition should_enforce_canary :: "policy_config \<Rightarrow> (string \<Rightarrow> bytes) \<Rightarrow> string \<Rightarrow> bool" where
  "should_enforce_canary cfg sha tok =
     (if canary_fraction cfg \<ge> 1 then True
      else if canary_fraction cfg \<le> 0 then False
      else (let h = sha tok;
                val = of_nat (int_to_float (int_from_bytes_big (take 8 h))) / 2 ^ 64
            in val < canary_fraction cfg))"

text \<open>Step 1 of \<open>decide_action\<close>: the action from the thresholds, with its reason.\<close>

definition threshold_action :: "policy_config \<Rightarrow> int \<Rightarrow> action \<times> string" where
  "threshold_action cfg risk_score =
     (if risk_score \<ge> thresh_allow cfg then (Allow, ''risk >= allow_threshold'')
      else if risk_score \<ge> thresh_reauth cfg then (RequireReauth, ''risk in reauth range'')
      else (Block, ''risk < reauth_threshold (suspicious)''))"

text \<open>\<open>actor or token\<close>: the actor unless it is \<open>None\<close> or empty.\<close>

definition quota_key :: "string option \<Rightarrow> string \<Rightarrow> string" where
  "quota_key actor tok = (case actor of None \<Rightarrow> tok | Some a \<Rightarrow> if a = [] then tok else a)"

text \<open>Step 2: the exception logic, which may consult and update the ledger.\<close>

definition apply_exception ::
    "policy_config \<Rightarrow> policy_state \<Rightarrow> metadata_summary \<Rightarrow> string option \<Rightarrow> string \<Rightarrow> rat \<Rightarrow>
     action \<times> string \<Rightarrow> (action \<times> string) \<times> policy_state" where
  "apply_exception cfg st meta actor tok now raw =
     (if ms_exception_flag meta then
        (let (ok, st') = within_exception_quota cfg st (quota_key actor tok) now
         in if ok then
              (if fst raw = Block
               then ((PendingApproval, ''exception requested by user; queued for admin review''), st')
               else ((fst raw, ''exception used; allowed but logged''), st'))
            else ((Block, ''exception quota exceeded; blocked''), st'))
      else (raw, st))"

text \<open>Step 3: enforcement from shadow mode and the canary fraction.\<close>

definition enforcement :: "policy_config \<Rightarrow> (string \<Rightarrow> bytes) \<Rightarrow> string \<Rightarrow> bool" where
  "enforcement cfg sha tok =
     (if shadow_mode cfg then False
      else if \<not> should_enforce_canary cfg sha tok then False
      else True)"

definition py_trunc :: "rat \<Rightarrow> int" where
  "py_trunc x = (if 0 \<le> x then \<lfloor>x\<rfloor> else \<lceil>x\<rceil>)"

text \<open>
  \<open>decide_action\<close>: the three steps, one audit record appended (\<open>record_audit\<close> writes a
  line; a failed write is swallowed there), and the decision returned.
\<close>

definition decide_action ::
    "policy_config \<Rightarrow> (string \<Rightarrow> bytes) \<Rightarrow> policy_state \<Rightarrow> int \<Rightarrow> string \<Rightarrow> metadata_summary \<Rightarrow>
     string option \<Rightarrow> string option \<Rightarrow> rat \<Rightarrow> decision \<times> policy_state" where
  "decide_action cfg sha st risk_score tok meta client_ip actor now =
     (let token_hash = opaque_id sha tok;
          client_ip_hash = map_option (opaque_id sha) client_ip;
          ((raw_action, reason), st1) =
             apply_exception cfg st meta actor tok now (threshold_action cfg risk_score);
          enforce = enforcement cfg sha tok;
          policy = raw_action;
          act = (if \<not> enforce then Allow else raw_action);
          event = \<lparr>ev_ts = py_trunc now, ev_token_hash = token_hash, ev_action = act,
                   ev_policy = policy, ev_risk = risk_score, ev_reason = reason,
                   ev_client_ip_hash = client_ip_hash,
                   ev_metadata_summary = meta,
                   ev_actor = (case actor of None \<Rightarrow> None
                               | Some a \<Rightarrow> if a = [] then None else Some (opaque_id sha a))\<rparr>;
          st2 = st1\<lparr>audit_log := audit_log st1 @ [event]\<rparr>
      in (\<lparr>d_action = act, d_policy = policy, d_enforced = enforce, d_reason = reason,
           d_token_hash = token_hash\<rparr>, st2))"

text \<open>A submission as the engine sees it, and a run of submissions in order.\<close>

record submission =
  c_risk :: int
  c_token :: string
  c_meta :: metadata_summary
  c_client_ip :: "string option"
  c_actor :: "string option"
  c_now :: rat

definition decide_submission ::
    "policy_config \<Rightarrow> (string \<Rightarrow> bytes) \<Rightarrow> policy_state \<Rightarrow> submission \<Rightarrow> decision \<times> policy_state" where
  "decide_submission cfg sha st c =
     decide_action cfg sha st (c_risk c) (c_token c) (c_meta c) (c_client_ip c) (c_actor c) (c_now c)"

fun run_decisions ::
    "policy_config \<Rightarrow> (string \<Rightarrow> bytes) \<Rightarrow> policy_state \<Rightarrow> submission list \<Rightarrow> decision list" where
  "run_decisions cfg sha st [] = []"
| "run_decisions cfg sha st (c # cs) =
     (let (d, st') = decide_submission cfg sha st c in d # run_decisions cfg sha st' cs)"

text \<open>The submissions of a run that were downgraded from block to pending approval for
  one quota key inside the time window from \<open>a\<close> to \<open>a + exception_window\<close>.\<close>

definition downgraded_in_window ::
    "policy_config \<Rightarrow> string \<Rightarrow> rat \<Rightarrow> submission \<times> decision \<Rightarrow> bool" where
  "downgraded_in_window cfg key a cd =
     (ms_exception_flag (c_meta (fst cd)) \<and> quota_key (c_actor (fst cd)) (c_token (fst cd)) = key
      \<and> d_policy (snd cd) = PendingApproval
      \<and> a \<le> c_now (fst cd) \<and> c_now (fst cd) \<le> a + of_int (exception_window_sec cfg))"

section \<open>Metadata sanitizer (metadata\_sanitizer.py)\<close>

text \<open>
  Metadata is a Python dict: an association list in insertion order.  A value is a string,
  an integer, a float, a boolean or \<open>None\<close>.  In Python \<open>bool\<close> is a subclass of
  \<open>int\<close>, so every \<open>isinstance(value, (int, float))\<close> test of the source accepts a
  boolean, and the later \<open>isinstance(value, bool)\<close> branch of \<open>_obfuscate_value\<close> is
  never reached.  Risk weights are floats in the source and exact rationals here.
  Field names and string values are taken to be ASCII text: \<open>lower\<close> maps A to Z,
  and \<open>isdigit\<close> accepts 0 to 9.
\<close>

datatype pyval = VStr string | VInt int | VFloat pyfloat | VBool bool | VNone

type_synonym metadata = "(string \<times> pyval) list"

definition lower_char :: "char \<Rightarrow> char" where
  "lower_char c =
     (let n = (of_char c :: nat) in if 65 \<le> n \<and> n \<le> 90 then char_of (n + 32) else c)"

definition str_lower :: "string \<Rightarrow> string" where
  "str_lower s = map lower_char s"

fun starts_with :: "string \<Rightarrow> string \<Rightarrow> bool" where
  "starts_with [] _ = True"
| "starts_with (p # ps) [] = False"
| "starts_with (p # ps) (c # cs) = (p = c \<and> starts_with ps cs)"

text \<open>\<open>pattern in text\<close>: the pattern occurs as a substring.\<close>

fun str_contains :: "string \<Rightarrow> string \<Rightarrow> bool" where
  "str_contains pat [] = (pat = [])"
| "str_contains pat (c # cs) = (starts_with pat (c # cs) \<or> str_contains pat cs)"

definition any_pattern_in :: "string list \<Rightarrow> string \<Rightarrow> bool" where
  "any_pattern_in patterns field = list_ex (\<lambda>pattern. str_contains pattern field) patterns"

definition sensitive_fields :: "string list" where
  "sensitive_fields =
     [''user_id'', ''username'', ''email'', ''phone'', ''device_id'', ''device_fingerprint'',
      ''ip_address'', ''mac_address'', ''location'', ''gps'', ''coordinates'', ''address'',
      ''browser_info'', ''user_agent'', ''session_id'', ''cookie'', ''token_raw'',
      ''timestamp_raw'', ''exact_time'', ''precise_location'', ''personal_info'',
      ''contact_info'', ''identity'', ''real_name'', ''social_security'', ''passport'',
      ''credit_card'', ''bank_account'', ''financial_info'', ''medical_info'',
      ''biometric_data'', ''face_id'', ''fingerprint'', ''voice_print'']"

definition medium_risk_fields :: "string list" where
  "medium_risk_fields =
     [''timestamp'', ''time'', ''date'', ''created_at'', ''updated_at'', ''last_seen'',
      ''message_count'', ''frequency'', ''pattern'', ''behavior'', ''activity'',
      ''network_info'', ''connection_type'', ''bandwidth'', ''latency'']"

definition low_risk_fields :: "string list" where
  "low_risk_fields = [''message_size'', ''padded_size'', ''ttl'', ''priority'', ''type'', ''category'']"

definition suspicious_keywords :: "string list" where
  "suspicious_keywords = [''id'', ''key'', ''secret'', ''private'', ''personal'', ''user'', ''client'']"

definition is_digit :: "char \<Rightarrow> bool" where
  "is_digit c = (48 \<le> (of_char c :: nat) \<and> (of_char c :: nat) \<le> 57)"

text \<open>
  \<open>_ai_assess_field\<close>.  For a string, \<open>'.' in value and len(value.split('.')) >= 2\<close> is
  just \<open>'.' in value\<close>.  A boolean passes the numeric test but is never above \<open>10^9\<close>.
\<close>

definition ai_assess_field :: "string \<Rightarrow> pyval \<Rightarrow> rat" where
  "ai_assess_field field_name val =
     (let r1 = (case val of
                  VStr s \<Rightarrow>
                    (if length s > 0 \<and> list_ex is_digit s then 3 / 10 else 0)
                    + (if CHR ''@'' \<in> set s then 8 / 10
                       else if CHR ''.'' \<in> set s then 6 / 10 else 0)
                    + (if length s = 36 \<and> CHR ''-'' \<in> set s then 5 / 10 else 0)
                | VInt n \<Rightarrow> (if n > 1000000000 \<and> n < 2000000000 then 4 / 10 else 0)
                | VFloat f \<Rightarrow>
                    (if fl_less (Fin 1000000000) f \<and> fl_less f (Fin 2000000000) then 4 / 10 else 0)
                | VBool b \<Rightarrow> 0
                | VNone \<Rightarrow> 0);
          r2 = (if any_pattern_in suspicious_keywords (str_lower field_name) then r1 + 3 / 10 else r1)
      in min 1 r2)"

datatype risk_level = RHigh | RMedium | RLow

definition assess_field_risk :: "string \<Rightarrow> pyval \<Rightarrow> risk_level" where
  "assess_field_risk field_name val =
     (if any_pattern_in sensitive_fields field_name then RHigh
      else if any_pattern_in medium_risk_fields field_name then RMedium
      else if any_pattern_in low_risk_fields field_name then RLow
      else (let risk_score = ai_assess_field field_name val
            in if risk_score > 7 / 10 then RHigh
               else if risk_score > 4 / 10 then RMedium
               else RLow))"

text \<open>
  \<open>analyze_metadata\<close>, as far as its result is used: the field lists, the capped risk
  score and the flag.  (The recommendation texts and the stored pattern history do not
  reach the sanitizer's result.)
\<close>

record analysis =
  a_risk_score :: rat
  a_sensitive_fields :: "string list"
  a_medium_risk_fields :: "string list"
  a_low_risk_fields :: "string list"
  a_sanitization_required :: bool

definition analyze_field :: "analysis \<Rightarrow> string \<times> pyval \<Rightarrow> analysis" where
  "analyze_field a fv =
     (case assess_field_risk (str_lower (fst fv)) (snd fv) of
        RHigh \<Rightarrow> a\<lparr>a_sensitive_fields := a_sensitive_fields a @ [fst fv],
                    a_risk_score := a_risk_score a + 8 / 10,
                    a_sanitization_required := True\<rparr>
      | RMedium \<Rightarrow> a\<lparr>a_medium_risk_fields := a_medium_risk_fields a @ [fst fv],
                     a_risk_score := a_risk_score a + 4 / 10\<rparr>
      | RLow \<Rightarrow> a\<lparr>a_low_risk_fields := a_low_risk_fields a @ [fst fv],
                   a_risk_score := a_risk_score a + 1 / 10\<rparr>)"

definition analyze_metadata :: "metadata \<Rightarrow> analysis" where
  "analyze_metadata m =
     (let a = foldl analyze_field
                \<lparr>a_risk_score = 0, a_sensitive_fields = [], a_medium_risk_fields = [],
                 a_low_risk_fields = [], a_sanitization_required = False\<rparr> m
      in a\<lparr>a_risk_score := min 1 (a_risk_score a)\<rparr>)"

text \<open>
  Randomness: \<open>secrets.randbelow(n)\<close> takes the next draw of a stream \<open>rng\<close> of naturals,
  reduced below \<open>n\<close>; the position in the stream is threaded through.
\<close>

definition randbelow :: "(nat \<Rightarrow> nat) \<Rightarrow> nat \<Rightarrow> nat \<Rightarrow> nat \<times> nat" where
  "randbelow rng i n = (rng i mod n, Suc i)"

text \<open>\<open>round(x, 2)\<close> on the exact value, ties to even; infinities and NaN stay.\<close>

definition round_half_even :: "rat \<Rightarrow> int" where
  "round_half_even x =
     (let f = \<lfloor>x\<rfloor>; d = x - of_int f
      in if d < 1 / 2 then f else if d > 1 / 2 then f + 1 else if even f then f else f + 1)"

fun fl_round2 :: "pyfloat \<Rightarrow> pyfloat" where
  "fl_round2 (Fin a) = Fin (of_int (round_half_even (a * 100)) / 100)"
| "fl_round2 x = x"

fun fl_add :: "pyfloat \<Rightarrow> rat \<Rightarrow> pyfloat" where
  "fl_add (Fin a) q = Fin (a + q)"
| "fl_add x q = x"

record sanitizer_config =
  sanitization_enabled :: bool
  obfuscation_enabled :: bool

definition default_sanitizer_config :: sanitizer_config where
  "default_sanitizer_config = \<lparr>sanitization_enabled = True, obfuscation_enabled = True\<rparr>"

definition obfuscate_string :: "(string \<Rightarrow> bytes) \<Rightarrow> string \<Rightarrow> string \<Rightarrow> string" where
  "obfuscate_string sha field s =
     (if length s > 0 then ''obf_'' @ take 8 (hex_of_bytes (sha (field @ '':'' @ s))) else s)"

definition bool_int :: "bool \<Rightarrow> int" where
  "bool_int b = (if b then 1 else 0)"

text \<open>\<open>_obfuscate_value\<close>; the value of unknown type is \<open>None\<close>, whose \<open>str\<close> is "None".\<close>

definition obfuscate_value ::
    "sanitizer_config \<Rightarrow> (string \<Rightarrow> bytes) \<Rightarrow> (nat \<Rightarrow> nat) \<Rightarrow> nat \<Rightarrow> string \<Rightarrow> pyval \<Rightarrow> pyval \<times> nat" where
  "obfuscate_value cfg sha rng i field val =
     (if \<not> obfuscation_enabled cfg then (val, i)
      else case val of
        VStr s \<Rightarrow> (VStr (obfuscate_string sha field s), i)
      | VFloat f \<Rightarrow>
          (let (r, i') = randbelow rng i 100; noise = of_nat r / 1000
           in (VFloat (fl_round2 (fl_add f noise)), i'))
      | VInt n \<Rightarrow> (let (r, i') = randbelow rng i 10 in (VInt (n + (int r - 5)), i'))
      | VBool b \<Rightarrow> (let (r, i') = randbelow rng i 10 in (VInt (bool_int b + (int r - 5)), i'))
      | VNone \<Rightarrow> (VStr (obfuscate_string sha field ''None''), i))"

text \<open>
  \<open>_quantize_value\<close>.  \<open>int(value // 60)\<close> raises on an infinity or NaN (the result is
  \<open>None\<close> then).
\<close>

definition quantize_value :: "string \<Rightarrow> pyval \<Rightarrow> pyval option" where
  "quantize_value field val =
     (case val of
        VFloat f \<Rightarrow>
          (if str_contains ''time'' (str_lower field) \<or> str_contains ''timestamp'' (str_lower field)
           then (case f of Fin a \<Rightarrow> Some (VInt (\<lfloor>a / 60\<rfloor> * 60)) | _ \<Rightarrow> None)
           else Some (VFloat (fl_round2 f)))
      | VInt n \<Rightarrow> Some (VInt ((n div 10) * 10))
      | VBool b \<Rightarrow> Some (VInt ((bool_int b div 10) * 10))
      | VStr s \<Rightarrow>
          Some (VStr (if length s \<le> 5 then ''short''
                      else if length s \<le> 20 then ''medium'' else ''long''))
      | VNone \<Rightarrow> Some VNone)"

definition calculate_final_risk_score :: "metadata \<Rightarrow> rat" where
  "calculate_final_risk_score sanitized =
     (if sanitized = [] then 0
      else min 1 (sum_list (map (\<lambda>(field, val).
                     if any_pattern_in sensitive_fields (str_lower field) then 8 / 10
                     else if any_pattern_in medium_risk_fields (str_lower field) then 3 / 10
                     else 1 / 10) sanitized)
                  / of_nat (length sanitized)))"

record sanitization_report =
  original_fields :: nat
  sanitized_fields :: nat
  removed_fields :: "string list"
  obfuscated_fields :: "string list"
  quantized_fields :: "string list"
  risk_score :: rat
  sanitization_applied :: bool
  final_risk_score :: rat

datatype report = ReportDisabled | Report sanitization_report

text \<open>The state of the loop over the fields: the map under construction, the lists of
  the report, the flag and the position in the random stream.\<close>

record loop_state =
  l_sanitized :: metadata
  l_removed :: "string list"
  l_obfuscated :: "string list"
  l_quantized :: "string list"
  l_applied :: bool
  l_rng :: nat

text \<open>The class of a field by its lower-cased name, in the order of the \<open>if\<close>/\<open>elif\<close>
  chain of \<open>sanitize_metadata\<close>.\<close>

datatype field_class = Sensitive | MediumRisk | LowRisk | UnknownField

definition classify_field :: "string \<Rightarrow> field_class" where
  "classify_field field =
     (let field_lower = str_lower field
      in if any_pattern_in sensitive_fields field_lower then Sensitive
         else if any_pattern_in medium_risk_fields field_lower then MediumRisk
         else if any_pattern_in low_risk_fields field_lower then LowRisk
         else UnknownField)"

definition sanitize_field ::
    "sanitizer_config \<Rightarrow> (string \<Rightarrow> bytes) \<Rightarrow> (nat \<Rightarrow> nat) \<Rightarrow> rat \<Rightarrow> rat \<Rightarrow>
     loop_state \<Rightarrow> string \<times> pyval \<Rightarrow> loop_state option" where
  "sanitize_field cfg sha rng analysis_risk risk_threshold st fv =
     (case classify_field (fst fv) of
        Sensitive \<Rightarrow>
          Some (st\<lparr>l_removed := l_removed st @ [fst fv], l_applied := True\<rparr>)
      | MediumRisk \<Rightarrow>
          (let (v, i') = obfuscate_value cfg sha rng (l_rng st) (fst fv) (snd fv)
           in Some (st\<lparr>l_sanitized := AList.update (fst fv) v (l_sanitized st),
                       l_obfuscated := l_obfuscated st @ [fst fv],
                       l_applied := True, l_rng := i'\<rparr>))
      | LowRisk \<Rightarrow>
          (case quantize_value (fst fv) (snd fv) of
             None \<Rightarrow> None
           | Some v \<Rightarrow>
               Some (st\<lparr>l_sanitized := AList.update (fst fv) v (l_sanitized st),
                        l_quantized := l_quantized st @ [fst fv]\<rparr>))
      | UnknownField \<Rightarrow>
          (if analysis_risk > risk_threshold
           then Some (st\<lparr>l_removed := l_removed st @ [fst fv], l_applied := True\<rparr>)
           else (let (v, i') = obfuscate_value cfg sha rng (l_rng st) (fst fv) (snd fv)
                 in Some (st\<lparr>l_sanitized := AList.update (fst fv) v (l_sanitized st),
                             l_obfuscated := l_obfuscated st @ [fst fv],
                             l_rng := i'\<rparr>))))"

fun sanitize_fields ::
    "sanitizer_config \<Rightarrow> (string \<Rightarrow> bytes) \<Rightarrow> (nat \<Rightarrow> nat) \<Rightarrow> rat \<Rightarrow> rat \<Rightarrow>
     loop_state \<Rightarrow> metadata \<Rightarrow> loop_state option" where
  "sanitize_fields cfg sha rng analysis_risk risk_threshold st [] = Some st"
| "sanitize_fields cfg sha rng analysis_risk risk_threshold st (fv # rest) =
     (case sanitize_field cfg sha rng analysis_risk risk_threshold st fv of
        None \<Rightarrow> None
      | Some st' \<Rightarrow> sanitize_fields cfg sha rng analysis_risk risk_threshold st' rest)"

text \<open>
  \<open>sanitize_metadata\<close>: the sanitized map, the report and the new position in the random
  stream; \<open>None\<close> when \<open>_quantize_value\<close> raises.
\<close>

definition sanitize_metadata ::
    "sanitizer_config \<Rightarrow> (string \<Rightarrow> bytes) \<Rightarrow> (nat \<Rightarrow> nat) \<Rightarrow> nat \<Rightarrow> metadata \<Rightarrow> rat \<Rightarrow>
     (metadata \<times> report \<times> nat) option" where
  "sanitize_metadata cfg sha rng i m risk_threshold =
     (if \<not> sanitization_enabled cfg then Some (m, ReportDisabled, i)
      else
        (let a = analyze_metadata m
         in case sanitize_fields cfg sha rng (a_risk_score a) risk_threshold
                   \<lparr>l_sanitized = [], l_removed = [], l_obfuscated = [], l_quantized = [],
                    l_applied = False, l_rng = i\<rparr> m of
              None \<Rightarrow> None
            | Some st \<Rightarrow>
                Some (l_sanitized st,
                      Report \<lparr>original_fields = length m,
                              sanitized_fields = length (l_sanitized st),
                              removed_fields = l_removed st,
                              obfuscated_fields = l_obfuscated st,
                              quantized_fields = l_quantized st,
                              risk_score = a_risk_score a,
                              sanitization_applied = l_applied st,
                              final_risk_score = calculate_final_risk_score (l_sanitized st)\<rparr>,
                      l_rng st)))"

text \<open>The default threshold \<open>SENSITIVE_FIELD_THRESHOLD\<close> and the metadata of scenario S6.\<close>

definition sensitive_field_threshold :: rat where
  "sensitive_field_threshold = 7 / 10"

definition s6_metadata :: metadata where
  "s6_metadata = [(''user_id'', VStr ''u123''), (''email'', VStr ''a@b.c''),
                  (''padded_size'', VInt 2048), (''timestamp'', VInt 1700000000)]"



section \<open>Audit log (forensic\_resistant\_audit.py)\<close>

text \<open>
  The log is a text file; the state holds the contents of the active file (\<open>None\<close> while
  it does not exist), the rotated files by their number, and the writer's byte counter.
  The serializer \<open>json.dumps\<close> and the keyed function
  \<open>pbkdf2_hmac('sha256', data, tamper_key, 1000)\<close> are library code: the parameters
  \<open>dumps\<close> and \<open>mac\<close>.  File operations are taken to succeed (a failing write is logged
  and swallowed by the source).
\<close>

record audit_config =
  audit_max_size :: nat
  audit_rotation_count :: nat
  tamper_detection :: bool

record audit_state =
  log_file :: "string option"
  rotated :: "nat \<Rightarrow> string option"
  log_size :: nat

definition new_audit :: audit_state where
  "new_audit = \<lparr>log_file = None, rotated = (\<lambda>_. None), log_size = 0\<rparr>"

definition calculate_checksum :: "audit_config \<Rightarrow> (string \<Rightarrow> bytes) \<Rightarrow> string \<Rightarrow> string" where
  "calculate_checksum cfg mac data =
     (if \<not> tamper_detection cfg then [] else take 16 (hex_of_bytes (mac data)))"

text \<open>Length of the UTF-8 encoding of a text whose characters are below 256.\<close>

definition utf8_len :: "string \<Rightarrow> nat" where
  "utf8_len s = sum_list (map (\<lambda>c. if (of_char c :: nat) < 128 then 1 else 2) s)"

text \<open>
  \<open>_rotate_log\<close>: files \<open>.i\<close> move to \<open>.i+1\<close> for \<open>i\<close> from
  \<open>rotation_count - 1\<close> down to 1, the active file moves to \<open>.1\<close>, the counter restarts.
\<close>

definition rename_rotated :: "(nat \<Rightarrow> string option) \<Rightarrow> nat \<Rightarrow> (nat \<Rightarrow> string option)" where
  "rename_rotated files i =
     (case files i of None \<Rightarrow> files | Some content \<Rightarrow> files(i := None, Suc i := Some content))"

definition rotate_log :: "audit_config \<Rightarrow> audit_state \<Rightarrow> audit_state" where
  "rotate_log cfg st =
     (let files = foldl rename_rotated (rotated st) (rev [1..<audit_rotation_count cfg])
      in case log_file st of
           None \<Rightarrow> st\<lparr>rotated := files, log_size := 0\<rparr>
         | Some content \<Rightarrow>
             st\<lparr>rotated := files(1 := Some content), log_file := None, log_size := 0\<rparr>)"

text \<open>\<open>_write_log_entry\<close>: the line is the JSON text, then (with tamper detection) a bar
  and the checksum; it is appended with a newline, and the file is created if absent.\<close>

definition audit_line :: "audit_config \<Rightarrow> (string \<Rightarrow> bytes) \<Rightarrow> string \<Rightarrow> string" where
  "audit_line cfg mac json_data =
     (if tamper_detection cfg then json_data @ ''|'' @ calculate_checksum cfg mac json_data
      else json_data)"

text \<open>What the active file holds; opening it for appending creates it empty if absent.\<close>

definition log_content :: "audit_state \<Rightarrow> string" where
  "log_content st = (case log_file st of None \<Rightarrow> [] | Some content \<Rightarrow> content)"

definition write_log_entry ::
    "audit_config \<Rightarrow> ('e \<Rightarrow> string) \<Rightarrow> (string \<Rightarrow> bytes) \<Rightarrow> audit_state \<Rightarrow> 'e \<Rightarrow> audit_state" where
  "write_log_entry cfg dumps mac st entry =
     (let json_data = audit_line cfg mac (dumps entry);
          old = log_content st;
          st1 = st\<lparr>log_file := Some (old @ json_data @ [CHR 0x0A]),
                   log_size := log_size st + utf8_len json_data\<rparr>
      in if log_size st1 > audit_max_size cfg then rotate_log cfg st1 else st1)"

text \<open>
  Reading the file in text mode: carriage return and carriage return plus line feed both
  become a line feed, and \<open>readlines\<close> cuts after every line feed.
\<close>

fun universal_newlines :: "string \<Rightarrow> string" where
  "universal_newlines [] = []"
| "universal_newlines [c] = (if c = CHR 0x0D then [CHR 0x0A] else [c])"
| "universal_newlines (c # d # ds) =
     (if c = CHR 0x0D \<and> d = CHR 0x0A then CHR 0x0A # universal_newlines ds
      else if c = CHR 0x0D then CHR 0x0A # universal_newlines (d # ds)
      else c # universal_newlines (d # ds))"

fun split_lines :: "string \<Rightarrow> string list" where
  "split_lines [] = []"
| "split_lines (c # cs) =
     (if c = CHR 0x0A then [c] # split_lines cs
      else (case split_lines cs of [] \<Rightarrow> [[c]] | l # ls \<Rightarrow> (c # l) # ls))"

definition readlines :: "string \<Rightarrow> string list" where
  "readlines content = split_lines (universal_newlines content)"

text \<open>\<open>str.strip()\<close> removes white space at both ends; these are the white-space
  characters below 256.\<close>

definition py_isspace :: "char \<Rightarrow> bool" where
  "py_isspace c = ((of_char c :: nat) \<in> {9, 10, 11, 12, 13, 28, 29, 30, 31, 32, 133, 160})"

definition strip :: "string \<Rightarrow> string" where
  "strip s = rev (dropWhile py_isspace (rev (dropWhile py_isspace s)))"

text \<open>\<open>line.rsplit("|", 1)\<close> for a line that holds a bar: the text before the last bar
  and the text after it.\<close>

definition rsplit_bar :: "string \<Rightarrow> string \<times> string" where
  "rsplit_bar line =
     (rev (tl (dropWhile (\<lambda>c. c \<noteq> CHR ''|'') (rev line))),
      rev (takeWhile (\<lambda>c. c \<noteq> CHR ''|'') (rev line)))"

datatype verify_status = Verified | Tampered | Disabled | ErrorStatus

record verify_result =
  v_status :: verify_status
  valid_entries :: nat
  invalid_entries :: nat

text \<open>The loop of \<open>verify_log_integrity\<close> over the lines, with its two counters.\<close>

fun count_entries ::
    "audit_config \<Rightarrow> (string \<Rightarrow> bytes) \<Rightarrow> string list \<Rightarrow> nat \<times> nat \<Rightarrow> nat \<times> nat" where
  "count_entries cfg mac [] (valid, invalid) = (valid, invalid)"
| "count_entries cfg mac (raw # rest) (valid, invalid) =
     (let line = strip raw
      in if line = [] then count_entries cfg mac rest (valid, invalid)
         else if CHR ''|'' \<in> set line then
           (let (json_data, checksum) = rsplit_bar line;
                expected_checksum = calculate_checksum cfg mac json_data
            in if checksum = expected_checksum
               then count_entries cfg mac rest (valid + 1, invalid)
               else count_entries cfg mac rest (valid, invalid + 1))
         else count_entries cfg mac rest (valid + 1, invalid))"

text \<open>\<open>verify_log_integrity\<close>; opening a file that does not exist raises, which the source
  turns into the status "error".\<close>

definition verify_log_integrity ::
    "audit_config \<Rightarrow> (string \<Rightarrow> bytes) \<Rightarrow> audit_state \<Rightarrow> verify_result" where
  "verify_log_integrity cfg mac st =
     (if \<not> tamper_detection cfg
      then \<lparr>v_status = Disabled, valid_entries = 0, invalid_entries = 0\<rparr>
      else case log_file st of
             None \<Rightarrow> \<lparr>v_status = ErrorStatus, valid_entries = 0, invalid_entries = 0\<rparr>
           | Some content \<Rightarrow>
               (let (valid, invalid) = count_entries cfg mac (readlines content) (0, 0)
                in \<lparr>v_status = (if invalid = 0 then Verified else Tampered),
                    valid_entries = valid, invalid_entries = invalid\<rparr>))"

text \<open>
  What is used of \<open>json.dumps\<close> on a dict with the compact separators: the text starts
  with an opening brace and holds no raw line feed or carriage return (control characters
  inside strings are escaped).
\<close>

definition json_text_ok :: "string \<Rightarrow> bool" where
  "json_text_ok s = (s \<noteq> [] \<and> hd s = CHR ''{'' \<and> CHR 0x0A \<notin> set s \<and> CHR 0x0D \<notin> set s)"

text \<open>A file of complete lines: empty, or ending with a line feed.\<close>

definition complete_lines :: "string \<Rightarrow> bool" where
  "complete_lines s = (s = [] \<or> last s = CHR 0x0A)"

section \<open>Verified properties of the ephemeral store\<close>

lemma map_of_put:
  "map_of (store (put s tok c ttl now fid)) tok =
     Some \<lparr>ciphertext = next_addr s, expire_at = now + of_int ttl, read = False,
           created_at = now, access_count = 0, forensic_id = fid\<rparr>"
  by (simp add: put_def alloc_def Let_def update_conv')

lemma heap_put: "heap (put s tok c ttl now fid) (next_addr s) = c"
  by (simp add: put_def alloc_def Let_def)


lemma wf_empty_storage: "wf_storage empty_storage"
  by (simp add: wf_storage_def empty_storage_def)

lemma wf_storage_iff:
  "wf_storage s \<longleftrightarrow> (\<forall>(t, e) \<in> set (store s). ciphertext e < next_addr s)"
  by (simp add: wf_storage_def list_all_iff)

lemma set_update_subset:
  "set (AList.update k v al) \<subseteq> insert (k, v) (set al)"
  by (induction al) auto

lemma wf_put: "wf_storage s \<Longrightarrow> wf_storage (put s tok c ttl now fid)"
  unfolding wf_storage_iff
  using set_update_subset [of tok _ "store s"]
  by (fastforce simp: put_def alloc_def Let_def)

lemma wf_queue: "wf_storage (queue_secure_deletion s tok) = wf_storage s"
  by (simp add: wf_storage_def queue_secure_deletion_def)

lemma wf_get: "wf_storage s \<Longrightarrow> wf_storage (snd (get s tok now))"
proof (cases "map_of (store s) tok")
  case None
  assume "wf_storage s"
  with None show ?thesis by (simp add: get_def)
next
  case (Some e)
  assume wf: "wf_storage s"
  from Some have mem: "(tok, e) \<in> set (store s)" by (rule map_of_SomeD)
  show ?thesis
  proof (cases "now > expire_at e")
    case True
    with Some wf show ?thesis by (simp add: get_def wf_queue)
  next
    case False
    have "\<forall>(t, e') \<in> set (AList.update tok (e\<lparr>access_count := access_count e + 1\<rparr>) (store s)).
            ciphertext e' < Suc (next_addr s)"
      using set_update_subset [of tok "e\<lparr>access_count := access_count e + 1\<rparr>" "store s"]
        wf mem unfolding wf_storage_iff by fastforce
    with Some False show ?thesis
      by (simp add: get_def alloc_def Let_def wf_storage_iff)
  qed
qed

lemma wf_mark_read_and_delete: "wf_storage s \<Longrightarrow> wf_storage (snd (mark_read_and_delete s tok))"
  by (simp add: mark_read_and_delete_def wf_queue)

lemma set_delete_subset: "set (AList.delete k al) \<subseteq> set al"
  by (induction al) auto

lemma wf_secure_delete_entry:
  "wf_storage s \<Longrightarrow> wf_storage (secure_delete_entry rnd passes s tok)"
  unfolding wf_storage_iff
  using set_delete_subset [of tok "store s"]
  by (cases "map_of (store s) tok") (auto simp: secure_delete_entry_def)

lemma wf_foldl_secure_delete:
  "wf_storage s \<Longrightarrow> wf_storage (foldl (secure_delete_entry rnd passes) s ts)"
  by (induction ts arbitrary: s) (simp_all add: wf_secure_delete_entry)

lemma wf_foldl_queue: "wf_storage (foldl queue_secure_deletion s ts) = wf_storage s"
  by (induction ts arbitrary: s) (simp_all add: wf_queue)

lemma wf_cleanup_tick: "wf_storage s \<Longrightarrow> wf_storage (cleanup_tick rnd passes s now)"
proof -
  assume "wf_storage s"
  then have "wf_storage (s\<lparr>deletion_queue := []\<rparr>)" by (simp add: wf_storage_def)
  then show ?thesis
    by (simp add: cleanup_tick_def Let_def wf_foldl_queue wf_foldl_secure_delete)
qed

text \<open>What does hold of the lifecycle: strictly before and at the expiry instant the entry
  is returned, strictly after it is absent.\<close>

lemma get_after_put_unexpired:
  assumes "now' \<le> now + of_int ttl"
  shows "\<exists>r s'. get (put s tok c ttl now fid) tok now' = (Some r, s')
           \<and> heap s' (r_ciphertext r) = c \<and> r_expire_at r = now + of_int ttl"
  using assms
  by (simp add: get_def map_of_put heap_put alloc_def Let_def put_def update_conv')

lemma get_after_put_expired:
  assumes "now + of_int ttl < now'"
  shows "fst (get (put s tok c ttl now fid) tok now') = None"
  using assms by (simp add: get_def map_of_put)

lemma store_queue [simp]: "store (queue_secure_deletion s tok) = store s"
  by (simp add: queue_secure_deletion_def)

lemma store_foldl_queue [simp]: "store (foldl queue_secure_deletion s ts) = store s"
  by (induction ts arbitrary: s) simp_all

lemma map_of_secure_delete_entry:
  "map_of (store (secure_delete_entry rnd passes s tok)) t =
     (if t = tok then None else map_of (store s) t)"
  by (cases "map_of (store s) tok") (auto simp: secure_delete_entry_def delete_conv')

lemma map_of_foldl_secure_delete:
  "map_of (store (foldl (secure_delete_entry rnd passes) s ts)) t =
     (if t \<in> set ts then None else map_of (store s) t)"
  by (induction ts arbitrary: s) (auto simp: map_of_secure_delete_entry)

lemma cleanup_tick_removes_queued:
  "tok \<in> set (deletion_queue s) \<Longrightarrow> map_of (store (cleanup_tick rnd passes s now)) tok = None"
  by (simp add: cleanup_tick_def Let_def map_of_foldl_secure_delete)

lemma get_after_cleanup_tick:
  "tok \<in> set (deletion_queue s) \<Longrightarrow> fst (get (cleanup_tick rnd passes s now) tok now') = None"
  by (simp add: get_def cleanup_tick_removes_queued)

lemma mark_read_and_delete_queues:
  "map_of (store s) tok \<noteq> None \<Longrightarrow>
     fst (mark_read_and_delete s tok) \<and> tok \<in> set (deletion_queue (snd (mark_read_and_delete s tok)))
     \<and> store (snd (mark_read_and_delete s tok)) = store s"
  by (simp add: mark_read_and_delete_def queue_secure_deletion_def)

text \<open>
  C1.  The lifecycle claim fails on the code in two places.  After
  \<open>put("t1", b"hello", 10)\<close> at clock 0, \<open>mark_read_and_delete("t1")\<close> at clock 1 returns
  true but only queues the token, so \<open>get("t1")\<close> at clock 2 still returns the ciphertext;
  and a \<open>get\<close> at elapsed time exactly 10 (= ttl) still returns the ciphertext, because
  \<open>get\<close> tests \<open>now > expire_at\<close> while the sweeper treats \<open>expire_at <= now\<close> as expired.
\<close>

theorem C1_get_after_mark_read_and_delete:
  "(let s1 = put empty_storage ''t1'' [104, 101, 108, 108, 111] 10 0 ''f1'';
        (deleted, s2) = mark_read_and_delete s1 ''t1'';
        (r, s3) = get s2 ''t1'' 2;
        (r', s4) = get s1 ''t1'' 10
    in deleted
       \<and> map_option (\<lambda>x. heap s3 (r_ciphertext x)) r = Some [104, 101, 108, 108, 111]
       \<and> map_option (\<lambda>x. heap s4 (r_ciphertext x)) r' = Some [104, 101, 108, 108, 111])"
  by (simp add: get_def put_def alloc_def mark_read_and_delete_def queue_secure_deletion_def
      empty_storage_def Let_def update_conv')




text \<open>
  C10.  On an unexpired entry \<open>get\<close> returns a new object holding the stored bytes: its
  address was not allocated before, no stored entry refers to it, so overwriting it changes
  no stored ciphertext; the entry keeps every field except \<open>access_count\<close>, which grows by
  one; every other entry, every existing object and the deletion queue are unchanged.
\<close>

theorem C10_get_returns_fresh_copy:
  assumes wf: "wf_storage s"
    and ent: "map_of (store s) tok = Some e"
    and live: "now \<le> expire_at e"
  shows "\<exists>r s'. get s tok now = (Some r, s')
           \<and> r_ciphertext r = next_addr s
           \<and> r_ciphertext r \<noteq> ciphertext e
           \<and> heap s' (r_ciphertext r) = heap s (ciphertext e)
           \<and> r_expire_at r = expire_at e \<and> r_read r = read e \<and> r_forensic_id r = forensic_id e
           \<and> map_of (store s') tok = Some (e\<lparr>access_count := access_count e + 1\<rparr>)
           \<and> (\<forall>t. t \<noteq> tok \<longrightarrow> map_of (store s') t = map_of (store s) t)
           \<and> (\<forall>a. a \<noteq> r_ciphertext r \<longrightarrow> heap s' a = heap s a)
           \<and> (\<forall>t e' data. map_of (store s') t = Some e' \<longrightarrow>
                 ((heap s')(r_ciphertext r := data)) (ciphertext e') = heap s (ciphertext e'))
           \<and> deletion_queue s' = deletion_queue s"
proof -
  let ?e' = "e\<lparr>access_count := access_count e + 1\<rparr>"
  let ?r = "\<lparr>r_ciphertext = next_addr s, r_expire_at = expire_at e, r_read = read e,
             r_forensic_id = forensic_id e\<rparr>"
  let ?s' = "s\<lparr>store := AList.update tok ?e' (store s),
               heap := (heap s)(next_addr s := heap s (ciphertext e)),
               next_addr := Suc (next_addr s)\<rparr>"
  have g: "get s tok now = (Some ?r, ?s')"
    using ent live by (simp add: get_def alloc_def Let_def)
  have below: "\<And>t e'. map_of (store s) t = Some e' \<Longrightarrow> ciphertext e' < next_addr s"
    using wf unfolding wf_storage_iff by (auto dest: map_of_SomeD)
  have ne: "next_addr s \<noteq> ciphertext e" using below [OF ent] by simp
  have stored: "\<And>t e'. map_of (store ?s') t = Some e' \<Longrightarrow> ciphertext e' < next_addr s"
    using below ent by (auto simp: update_conv' split: if_splits)
  have sep: "\<forall>t e' data. map_of (store ?s') t = Some e' \<longrightarrow>
                 ((heap ?s')(r_ciphertext ?r := data)) (ciphertext e') = heap s (ciphertext e')"
  proof (intro allI impI)
    fix t e' data
    assume "map_of (store ?s') t = Some e'"
    then have "ciphertext e' < next_addr s" by (rule stored)
    then show "((heap ?s')(r_ciphertext ?r := data)) (ciphertext e') = heap s (ciphertext e')"
      by simp
  qed
  show ?thesis
    apply (rule exI [of _ ?r], rule exI [of _ ?s'])
    using g ne sep by (simp add: update_conv')
qed

theorem C10_get_returns_fresh_copy_witness:
  "\<exists>r s'. get (put empty_storage ''t1'' [1, 2, 3] 10 0 ''f1'') ''t1'' 2 = (Some r, s')
     \<and> r_ciphertext r = 1 \<and> heap s' (r_ciphertext r) = [1, 2, 3]
     \<and> map_option access_count (map_of (store s') ''t1'') = Some 1"
proof -
  let ?s = "put empty_storage ''t1'' [1, 2, 3] 10 0 ''f1''"
  let ?e = "\<lparr>ciphertext = 0, expire_at = 10, read = False, created_at = 0,
             access_count = 0, forensic_id = ''f1''\<rparr>"
  have wf: "wf_storage ?s" by (rule wf_put [OF wf_empty_storage])
  have ent: "map_of (store ?s) ''t1'' = Some ?e"
    by (simp add: map_of_put empty_storage_def)
  have live: "(2::rat) \<le> expire_at ?e" by simp
  have n: "next_addr ?s = 1" by (simp add: put_def alloc_def empty_storage_def Let_def)
  have h: "heap ?s 0 = [1, 2, 3]" by (simp add: put_def alloc_def empty_storage_def Let_def)
  from C10_get_returns_fresh_copy [OF wf ent live] n h show ?thesis by auto
qed

section \<open>Verified properties of the anomaly scorer\<close>









text \<open>
  C8.  As stated the claim fails: \<open>add_observation\<close> checks neither arity nor finiteness.
  A vector holding NaN and infinity, and a vector of one element, are appended.
\<close>

theorem C8_add_observation_counterexample:
  "buffer (add_observation new_adapter [Num NaN, Num PInf]) = [[NaN, PInf]]
   \<and> buffer (add_observation new_adapter [Num (Fin 1)]) = [[Fin 1]]"
  by (simp add: add_observation_def new_adapter_def Let_def)

text \<open>
  C8, amended.  \<open>add_observation\<close> only requires that every element converts with
  \<open>float\<close>: if one does not, the adapter is unchanged; otherwise the converted vector,
  whatever its length and whether or not its values are finite, is appended, and the
  oldest vector is dropped when the buffer then exceeds its capacity.  Model, scaler and
  trained flag are untouched.
\<close>

theorem C8_add_observation:
  "(to_floats v = None \<longrightarrow> add_observation a v = a)
   \<and> (\<forall>vec. to_floats v = Some vec \<longrightarrow>
        buffer (add_observation a v) =
          (if int (length (buffer a)) + 1 > max_buffer a then tl (buffer a @ [vec])
           else buffer a @ [vec])
        \<and> model (add_observation a v) = model a \<and> scaler (add_observation a v) = scaler a
        \<and> trained (add_observation a v) = trained a
        \<and> max_buffer (add_observation a v) = max_buffer a)"
  by (simp add: add_observation_def Let_def)

theorem C8_add_observation_witness:
  "add_observation new_adapter [NotNum, Num (Fin 1)] = new_adapter
   \<and> buffer (add_observation (new_adapter\<lparr>buffer := [[Fin 1], [Fin 2]], max_buffer := 2\<rparr>)
        [Num (Fin 3)]) = [[Fin 2], [Fin 3]]"
proof -
  have n: "to_floats [NotNum, Num (Fin 1)] = None" by simp
  have s: "to_floats [Num (Fin 3)] = Some [Fin 3]" by simp
  from C8_add_observation [of "[NotNum, Num (Fin 1)]" new_adapter] n
  have 1: "add_observation new_adapter [NotNum, Num (Fin 1)] = new_adapter" by simp
  from C8_add_observation
    [of "[Num (Fin 3)]" "new_adapter\<lparr>buffer := [[Fin 1], [Fin 2]], max_buffer := 2\<rparr>"] s
  have 2: "buffer (add_observation (new_adapter\<lparr>buffer := [[Fin 1], [Fin 2]], max_buffer := 2\<rparr>)
        [Num (Fin 3)]) = [[Fin 2], [Fin 3]]" by simp
  from 1 2 show ?thesis by simp
qed

section \<open>Verified properties of the policy engine\<close>

lemma unat_byte_less: "unat (b :: 8 word) < 256"
  using unsigned_less [of b, where 'a = nat] by simp

lemma int_from_bytes_big_bound_aux:
  "acc < 256 ^ k \<Longrightarrow> foldl (\<lambda>acc (b :: 8 word). acc * 256 + unat b) acc bs < 256 ^ (k + length bs)"
proof (induction bs arbitrary: acc k)
  case Nil
  then show ?case by simp
next
  case (Cons b bs)
  have "acc * 256 + unat b < 256 ^ Suc k"
  proof -
    have "acc + 1 \<le> 256 ^ k" using Cons.prems by simp
    then have "(acc + 1) * 256 \<le> 256 ^ k * 256" by (rule mult_le_mono1)
    with unat_byte_less [of b] show ?thesis by simp
  qed
  from Cons.IH [OF this] show ?case by simp
qed

lemma int_from_bytes_big_bound: "int_from_bytes_big bs < 256 ^ length bs"
  using int_from_bytes_big_bound_aux [of 0 0 bs] by (simp add: int_from_bytes_big_def)

lemma first8_bound: "int_from_bytes_big (take 8 h) < 2 ^ 64"
proof -
  have "int_from_bytes_big (take 8 h) < 256 ^ length (take 8 h)"
    by (rule int_from_bytes_big_bound)
  also have "\<dots> \<le> (256::nat) ^ 8" by (rule power_increasing) simp_all
  also have "(256::nat) ^ 8 = 2 ^ 64" by simp
  finally show ?thesis .
qed





lemma decide_submission_policy:
  "d_policy (fst (decide_submission cfg sha st c)) =
     fst (fst (apply_exception cfg st (c_meta c) (c_actor c) (c_token c) (c_now c)
                 (threshold_action cfg (c_risk c))))"
  by (simp add: decide_submission_def decide_action_def Let_def split: prod.split)

lemma decide_submission_events:
  "exception_events (snd (decide_submission cfg sha st c)) =
     exception_events (snd (apply_exception cfg st (c_meta c) (c_actor c) (c_token c) (c_now c)
                 (threshold_action cfg (c_risk c))))"
  by (simp add: decide_submission_def decide_action_def Let_def split: prod.split)

lemma decide_submission_enforced:
  "d_enforced (fst (decide_submission cfg sha st c)) = enforcement cfg sha (c_token c)"
  by (simp add: decide_submission_def decide_action_def Let_def split: prod.split)

lemma decide_submission_action:
  "d_action (fst (decide_submission cfg sha st c)) =
     (if enforcement cfg sha (c_token c) then d_policy (fst (decide_submission cfg sha st c))
      else Allow)"
  by (simp add: decide_submission_def decide_action_def Let_def split: prod.split)

lemma within_quota_iff:
  "fst (within_exception_quota cfg st key now)
     \<longleftrightarrow> int (length (filter (\<lambda>ts. now - of_int (exception_window_sec cfg) \<le> ts)
                          (exception_events st key))) < exception_quota cfg"
  by (simp add: within_exception_quota_def Let_def)

lemma within_quota_events:
  "exception_events (snd (within_exception_quota cfg st key now)) k =
     (if k = key then
        (if fst (within_exception_quota cfg st key now)
         then filter (\<lambda>ts. now - of_int (exception_window_sec cfg) \<le> ts) (exception_events st key) @ [now]
         else filter (\<lambda>ts. now - of_int (exception_window_sec cfg) \<le> ts) (exception_events st key))
      else exception_events st k)"
  by (simp add: within_exception_quota_def Let_def)

lemma apply_exception_unflagged:
  "\<not> ms_exception_flag meta \<Longrightarrow> apply_exception cfg st meta actor tok now raw = (raw, st)"
  by (simp add: apply_exception_def)

lemma apply_exception_flagged_policy:
  "ms_exception_flag meta \<Longrightarrow>
   fst (fst (apply_exception cfg st meta actor tok now raw)) =
     (if fst (within_exception_quota cfg st (quota_key actor tok) now)
      then (if fst raw = Block then PendingApproval else fst raw)
      else Block)"
  by (simp add: apply_exception_def Let_def split: prod.split)

lemma apply_exception_flagged_events:
  "ms_exception_flag meta \<Longrightarrow>
   exception_events (snd (apply_exception cfg st meta actor tok now raw)) =
     exception_events (snd (within_exception_quota cfg st (quota_key actor tok) now))"
  by (simp add: apply_exception_def Let_def split: prod.split)

lemma decide_irrelevant_events:
  assumes "\<not> (ms_exception_flag (c_meta c) \<and> quota_key (c_actor c) (c_token c) = key)"
  shows "exception_events (snd (decide_submission cfg sha st c)) key = exception_events st key"
proof (cases "ms_exception_flag (c_meta c)")
  case True
  with assms have "quota_key (c_actor c) (c_token c) \<noteq> key" by simp
  with True show ?thesis
    by (simp add: decide_submission_events apply_exception_flagged_events within_quota_events)
next
  case False
  then show ?thesis by (simp add: decide_submission_events apply_exception_unflagged)
qed

lemma decide_relevant_events:
  assumes "ms_exception_flag (c_meta c)" and "quota_key (c_actor c) (c_token c) = key"
  shows "exception_events (snd (decide_submission cfg sha st c)) key =
     (if int (length (filter (\<lambda>ts. c_now c - of_int (exception_window_sec cfg) \<le> ts)
                       (exception_events st key))) < exception_quota cfg
      then filter (\<lambda>ts. c_now c - of_int (exception_window_sec cfg) \<le> ts) (exception_events st key)
             @ [c_now c]
      else filter (\<lambda>ts. c_now c - of_int (exception_window_sec cfg) \<le> ts) (exception_events st key))"
  using assms
  by (simp add: decide_submission_events apply_exception_flagged_events within_quota_events
      within_quota_iff)

lemma decide_relevant_policy:
  assumes "ms_exception_flag (c_meta c)" and "quota_key (c_actor c) (c_token c) = key"
  shows "d_policy (fst (decide_submission cfg sha st c)) =
     (if int (length (filter (\<lambda>ts. c_now c - of_int (exception_window_sec cfg) \<le> ts)
                       (exception_events st key))) < exception_quota cfg
      then (if fst (threshold_action cfg (c_risk c)) = Block then PendingApproval
            else fst (threshold_action cfg (c_risk c)))
      else Block)"
  using assms
  by (simp add: decide_submission_policy apply_exception_flagged_policy within_quota_iff)

lemma no_downgrade_outside:
  assumes "\<forall>c \<in> set cs. a + of_int (exception_window_sec cfg) < c_now c"
  shows "filter (downgraded_in_window cfg key a) (zip cs ds) = []"
proof -
  have "\<forall>cd \<in> set (zip cs ds). \<not> downgraded_in_window cfg key a cd"
  proof
    fix cd assume "cd \<in> set (zip cs ds)"
    then have "(fst cd, snd cd) \<in> set (zip cs ds)" by simp
    then have "fst cd \<in> set cs" by (rule set_zip_leftD)
    with assms have "a + of_int (exception_window_sec cfg) < c_now (fst cd)" by blast
    then show "\<not> downgraded_in_window cfg key a cd" by (simp add: downgraded_in_window_def)
  qed
  then show ?thesis by (simp add: filter_empty_conv)
qed

lemma window_bound_aux:
  assumes "sorted (map c_now cs)" and "0 \<le> exception_window_sec cfg"
  shows "int (length (filter (downgraded_in_window cfg key a) (zip cs (run_decisions cfg sha st cs))))
           \<le> max 0 (exception_quota cfg - int (length (filter (\<lambda>ts. a \<le> ts) (exception_events st key))))"
  using assms(1)
proof (induction cs arbitrary: st)
  case Nil
  then show ?case by simp
next
  case (Cons c cs)
  let ?W = "of_int (exception_window_sec cfg) :: rat"
  let ?q = "exception_quota cfg"
  let ?st' = "snd (decide_submission cfg sha st c)"
  let ?d = "fst (decide_submission cfg sha st c)"
  let ?L = "exception_events st key"
  let ?t = "c_now c"
  let ?ev = "filter (\<lambda>ts. ?t - ?W \<le> ts) ?L"
  let ?P = "downgraded_in_window cfg key a"
  let ?rest = "filter ?P (zip cs (run_decisions cfg sha ?st' cs))"
  have W: "0 \<le> ?W" using assms(2) by simp
  have sorted_cs: "sorted (map c_now cs)" and later: "\<forall>c' \<in> set cs. ?t \<le> c_now c'"
    using Cons.prems by auto
  have IH: "int (length ?rest) \<le> max 0 (?q - int (length (filter (\<lambda>ts. a \<le> ts) (exception_events ?st' key))))"
    by (rule Cons.IH [OF sorted_cs])
  have unfold: "filter ?P (zip (c # cs) (run_decisions cfg sha st (c # cs)))
                  = (if ?P (c, ?d) then (c, ?d) # ?rest else ?rest)"
    by (simp add: split_beta Let_def)
  show ?case
  proof (cases "ms_exception_flag (c_meta c) \<and> quota_key (c_actor c) (c_token c) = key")
    case False
    then have "\<not> ?P (c, ?d)" by (auto simp: downgraded_in_window_def)
    moreover have "exception_events ?st' key = ?L" using False by (rule decide_irrelevant_events)
    ultimately show ?thesis using IH unfold by simp
  next
    case True
    then have fl: "ms_exception_flag (c_meta c)" and k: "quota_key (c_actor c) (c_token c) = key"
      by simp_all
    note ev' = decide_relevant_events [OF fl k, of cfg sha st]
    note pol = decide_relevant_policy [OF fl k, of cfg sha st]
    consider (before) "?t < a" | (inside) "a \<le> ?t" "?t \<le> a + ?W" | (after) "a + ?W < ?t"
      by linarith
    then show ?thesis
    proof cases
      case before
      then have np: "\<not> ?P (c, ?d)" by (simp add: downgraded_in_window_def)
      have same: "filter (\<lambda>ts. a \<le> ts) ?ev = filter (\<lambda>ts. a \<le> ts) ?L"
        using before W by (auto intro!: filter_cong)
      have "filter (\<lambda>ts. a \<le> ts) (exception_events ?st' key) = filter (\<lambda>ts. a \<le> ts) ?L"
        using before same by (simp add: ev')
      with np IH unfold show ?thesis by simp
    next
      case inside
      have same: "filter (\<lambda>ts. a \<le> ts) ?ev = filter (\<lambda>ts. a \<le> ts) ?L"
        using inside by (auto intro!: filter_cong)
      have le: "length (filter (\<lambda>ts. a \<le> ts) ?L) \<le> length ?ev"
        using length_filter_le [of "\<lambda>ts. a \<le> ts" ?ev] by (simp only: same)
      show ?thesis
      proof (cases "int (length ?ev) < ?q")
        case True
        then have "filter (\<lambda>ts. a \<le> ts) (exception_events ?st' key)
                     = filter (\<lambda>ts. a \<le> ts) ?L @ [?t]"
          using inside same by (simp add: ev')
        then have "int (length ?rest) \<le> max 0 (?q - int (length (filter (\<lambda>ts. a \<le> ts) ?L)) - 1)"
          using IH by simp
        moreover have "int (length (filter (\<lambda>ts. a \<le> ts) ?L)) < ?q" using le True by linarith
        ultimately show ?thesis using unfold by (simp split: if_splits)
      next
        case False
        then have "d_policy ?d = Block" by (simp add: pol)
        then have np: "\<not> ?P (c, ?d)" by (simp add: downgraded_in_window_def)
        have "filter (\<lambda>ts. a \<le> ts) (exception_events ?st' key) = filter (\<lambda>ts. a \<le> ts) ?L"
          using False same by (simp add: ev')
        with np IH unfold show ?thesis by simp
      qed
    next
      case after
      then have np: "\<not> ?P (c, ?d)" by (simp add: downgraded_in_window_def)
      have "\<forall>c' \<in> set cs. a + ?W < c_now c'" using later after by fastforce
      then have "?rest = []" by (rule no_downgrade_outside)
      with np unfold show ?thesis by simp
    qed
  qed
qed

lemma burst_policies:
  assumes "\<forall>c \<in> set cs. ms_exception_flag (c_meta c) \<and> quota_key (c_actor c) (c_token c) = key"
    and "\<forall>c \<in> set cs. \<forall>ts \<in> set (exception_events st key).
           c_now c - of_int (exception_window_sec cfg) \<le> ts"
    and "\<forall>c \<in> set cs. \<forall>c' \<in> set cs. c_now c - of_int (exception_window_sec cfg) \<le> c_now c'"
    and "i < length cs"
  shows "d_policy (run_decisions cfg sha st cs ! i) =
     (if int (length (exception_events st key)) + int i < exception_quota cfg
      then (if fst (threshold_action cfg (c_risk (cs ! i))) = Block then PendingApproval
            else fst (threshold_action cfg (c_risk (cs ! i))))
      else Block)"
  using assms
proof (induction cs arbitrary: st i)
  case Nil
  then show ?case by simp
next
  case (Cons c cs)
  let ?W = "of_int (exception_window_sec cfg) :: rat"
  let ?st' = "snd (decide_submission cfg sha st c)"
  let ?d = "fst (decide_submission cfg sha st c)"
  let ?L = "exception_events st key"
  have fl: "ms_exception_flag (c_meta c)" and k: "quota_key (c_actor c) (c_token c) = key"
    using Cons.prems(1) by simp_all
  have keep: "filter (\<lambda>ts. c_now c - ?W \<le> ts) ?L = ?L"
    using Cons.prems(2) by (simp add: filter_id_conv)
  have ev': "exception_events ?st' key = (if int (length ?L) < exception_quota cfg then ?L @ [c_now c] else ?L)"
    using decide_relevant_events [OF fl k, of cfg sha st] by (simp only: keep)
  have pol: "d_policy ?d =
     (if int (length ?L) < exception_quota cfg
      then (if fst (threshold_action cfg (c_risk c)) = Block then PendingApproval
            else fst (threshold_action cfg (c_risk c)))
      else Block)"
    using decide_relevant_policy [OF fl k, of cfg sha st] by (simp only: keep)
  have run: "run_decisions cfg sha st (c # cs) = ?d # run_decisions cfg sha ?st' cs"
    by (simp add: split_beta)
  show ?case
  proof (cases i)
    case 0
    then show ?thesis using pol run by simp
  next
    case (Suc j)
    have p1: "\<forall>c \<in> set cs. ms_exception_flag (c_meta c) \<and> quota_key (c_actor c) (c_token c) = key"
      using Cons.prems(1) by simp
    have p2: "\<forall>c' \<in> set cs. \<forall>ts \<in> set (exception_events ?st' key). c_now c' - ?W \<le> ts"
      using Cons.prems(2,3) by (auto simp: ev')
    have p3: "\<forall>c \<in> set cs. \<forall>c' \<in> set cs. c_now c - ?W \<le> c_now c'"
      using Cons.prems(3) by simp
    have p4: "j < length cs" using Cons.prems(4) Suc by simp
    have "d_policy (run_decisions cfg sha ?st' cs ! j) =
       (if int (length (exception_events ?st' key)) + int j < exception_quota cfg
        then (if fst (threshold_action cfg (c_risk (cs ! j))) = Block then PendingApproval
              else fst (threshold_action cfg (c_risk (cs ! j))))
        else Block)"
      by (rule Cons.IH [OF p1 p2 p3 p4])
    then show ?thesis using Suc run by (auto simp: ev')
  qed
qed

lemma run_decisions_length: "length (run_decisions cfg sha st cs) = length cs"
  by (induction cs arbitrary: st) (simp_all add: split_beta)

lemma run_decisions_action:
  "i < length cs \<Longrightarrow>
     d_action (run_decisions cfg sha st cs ! i) =
       (if enforcement cfg sha (c_token (cs ! i)) then d_policy (run_decisions cfg sha st cs ! i)
        else Allow)
     \<and> d_enforced (run_decisions cfg sha st cs ! i) = enforcement cfg sha (c_token (cs ! i))"
proof (induction cs arbitrary: st i)
  case Nil
  then show ?case by simp
next
  case (Cons c cs)
  show ?case
  proof (cases i)
    case 0
    then show ?thesis
      using decide_submission_action [of cfg sha st c] decide_submission_enforced [of cfg sha st c]
      by (simp add: split_beta)
  next
    case (Suc j)
    with Cons.prems have "j < length cs" by simp
    from Cons.IH [OF this, of "snd (decide_submission cfg sha st c)"] Suc
    show ?thesis by (simp add: split_beta)
  qed
qed






lemma no_downgrade_negative_window:
  assumes "exception_window_sec cfg < 0"
  shows "filter (downgraded_in_window cfg key a) xs = []"
proof -
  have "(of_int (exception_window_sec cfg) :: rat) < 0" using assms by simp
  then have "\<forall>cd \<in> set xs. \<not> downgraded_in_window cfg key a cd"
    by (auto simp: downgraded_in_window_def)
  then show ?thesis by (simp add: filter_empty_conv)
qed

lemma window_bound:
  assumes "sorted (map c_now cs)"
  shows "int (length (filter (downgraded_in_window cfg key a) (zip cs (run_decisions cfg sha st cs))))
           \<le> max 0 (exception_quota cfg)"
proof (cases "0 \<le> exception_window_sec cfg")
  case True
  have "int (length (filter (downgraded_in_window cfg key a) (zip cs (run_decisions cfg sha st cs))))
          \<le> max 0 (exception_quota cfg - int (length (filter (\<lambda>ts. a \<le> ts) (exception_events st key))))"
    by (rule window_bound_aux [OF assms True])
  then show ?thesis by linarith
next
  case False
  then have "exception_window_sec cfg < 0" by simp
  then show ?thesis by (simp add: no_downgrade_negative_window)
qed

lemma burst_from_empty:
  assumes srt: "sorted (map c_now cs)"
    and emp: "exception_events st key = []"
    and rel: "\<forall>c \<in> set cs. ms_exception_flag (c_meta c) \<and> quota_key (c_actor c) (c_token c) = key
                \<and> c_now c \<le> c_now (hd cs) + of_int (exception_window_sec cfg)"
    and i: "i < length cs"
  shows "d_policy (run_decisions cfg sha st cs ! i) =
     (if int i < exception_quota cfg
      then (if fst (threshold_action cfg (c_risk (cs ! i))) = Block then PendingApproval
            else fst (threshold_action cfg (c_risk (cs ! i))))
      else Block)"
proof -
  have first: "\<forall>c' \<in> set cs. c_now (hd cs) \<le> c_now c'"
  proof (cases cs)
    case Nil
    then show ?thesis by simp
  next
    case (Cons x xs)
    with srt show ?thesis by auto
  qed
  have span: "\<forall>c \<in> set cs. \<forall>c' \<in> set cs. c_now c - of_int (exception_window_sec cfg) \<le> c_now c'"
  proof (intro ballI)
    fix c c' assume "c \<in> set cs" "c' \<in> set cs"
    with rel first have "c_now c \<le> c_now (hd cs) + of_int (exception_window_sec cfg)"
      and "c_now (hd cs) \<le> c_now c'" by auto
    then show "c_now c - of_int (exception_window_sec cfg) \<le> c_now c'" by linarith
  qed
  have rel': "\<forall>c \<in> set cs. ms_exception_flag (c_meta c) \<and> quota_key (c_actor c) (c_token c) = key"
    using rel by simp
  have led: "\<forall>c \<in> set cs. \<forall>ts \<in> set (exception_events st key).
               c_now c - of_int (exception_window_sec cfg) \<le> ts"
    by (simp add: emp)
  from burst_policies [OF rel' led span i, of sha] show ?thesis by (simp add: emp)
qed

text \<open>
  C5.  As stated the claim fails where the decision is not enforced: in shadow mode, with
  quota 1, the second exception-flagged low-risk submission of an actor has policy block
  but the returned action is allow.
\<close>

theorem C5_exception_quota_counterexample:
  "map d_action (run_decisions (default_config\<lparr>shadow_mode := True, exception_quota := 1\<rparr>)
       (\<lambda>_. []) empty_policy_state
       [\<lparr>c_risk = 10, c_token = ''t1'',
         c_meta = \<lparr>ms_exception_flag = True, ms_padded_size = None, ms_dest_count = None\<rparr>,
         c_client_ip = None, c_actor = Some ''alice'', c_now = 0\<rparr>,
        \<lparr>c_risk = 10, c_token = ''t2'',
         c_meta = \<lparr>ms_exception_flag = True, ms_padded_size = None, ms_dest_count = None\<rparr>,
         c_client_ip = None, c_actor = Some ''alice'', c_now = 1\<rparr>])
     = [Allow, Allow]
   \<and> map d_policy (run_decisions (default_config\<lparr>shadow_mode := True, exception_quota := 1\<rparr>)
       (\<lambda>_. []) empty_policy_state
       [\<lparr>c_risk = 10, c_token = ''t1'',
         c_meta = \<lparr>ms_exception_flag = True, ms_padded_size = None, ms_dest_count = None\<rparr>,
         c_client_ip = None, c_actor = Some ''alice'', c_now = 0\<rparr>,
        \<lparr>c_risk = 10, c_token = ''t2'',
         c_meta = \<lparr>ms_exception_flag = True, ms_padded_size = None, ms_dest_count = None\<rparr>,
         c_client_ip = None, c_actor = Some ''alice'', c_now = 1\<rparr>])
     = [PendingApproval, Block]"
  by (simp add: decide_submission_def decide_action_def apply_exception_def
      within_exception_quota_def threshold_action_def enforcement_def quota_key_def
      default_config_def empty_policy_state_def Let_def)

text \<open>
  C5, amended.  A call is within quota iff strictly fewer than \<open>exception_quota\<close>
  timestamps of its key lie within the last \<open>exception_window\<close> seconds.  For submissions
  decided in clock order, in any window of \<open>exception_window\<close> seconds at most
  \<open>exception_quota\<close> submissions of one key are downgraded from block to pending
  approval.  In a burst of exception-flagged submissions of one key that spans at most one
  window, starting from an empty ledger for that key, the first \<open>exception_quota\<close>
  submissions get the downgraded (or unchanged non-block) policy and every later one gets
  policy block; its returned action is block when the decision is enforced and allow when
  it is not (shadow mode, or outside the canary fraction).
\<close>

theorem C5_exception_quota:
  assumes "sorted (map c_now cs)"
  shows "(fst (within_exception_quota cfg st' k now)
            \<longleftrightarrow> int (length (filter (\<lambda>ts. now - of_int (exception_window_sec cfg) \<le> ts)
                                 (exception_events st' k))) < exception_quota cfg)
    \<and> int (length (filter (downgraded_in_window cfg key a) (zip cs (run_decisions cfg sha st cs))))
         \<le> max 0 (exception_quota cfg)
    \<and> (exception_events st key = []
        \<and> (\<forall>c \<in> set cs. ms_exception_flag (c_meta c) \<and> quota_key (c_actor c) (c_token c) = key
                \<and> c_now c \<le> c_now (hd cs) + of_int (exception_window_sec cfg))
        \<longrightarrow> (\<forall>i < length cs.
               (int i < exception_quota cfg \<longrightarrow>
                  d_policy (run_decisions cfg sha st cs ! i) =
                    (if fst (threshold_action cfg (c_risk (cs ! i))) = Block then PendingApproval
                     else fst (threshold_action cfg (c_risk (cs ! i)))))
             \<and> (exception_quota cfg \<le> int i \<longrightarrow>
                  d_policy (run_decisions cfg sha st cs ! i) = Block
                  \<and> d_action (run_decisions cfg sha st cs ! i) =
                      (if d_enforced (run_decisions cfg sha st cs ! i) then Block else Allow))))"
proof (intro conjI impI allI)
  show "fst (within_exception_quota cfg st' k now)
            \<longleftrightarrow> int (length (filter (\<lambda>ts. now - of_int (exception_window_sec cfg) \<le> ts)
                                 (exception_events st' k))) < exception_quota cfg"
    by (rule within_quota_iff)
next
  show "int (length (filter (downgraded_in_window cfg key a) (zip cs (run_decisions cfg sha st cs))))
         \<le> max 0 (exception_quota cfg)"
    by (rule window_bound [OF assms])
next
  fix i
  assume h: "exception_events st key = []
        \<and> (\<forall>c \<in> set cs. ms_exception_flag (c_meta c) \<and> quota_key (c_actor c) (c_token c) = key
                \<and> c_now c \<le> c_now (hd cs) + of_int (exception_window_sec cfg))"
    and i: "i < length cs"
  note b = burst_from_empty [OF assms conjunct1 [OF h] conjunct2 [OF h] i, of sha]
  {
    assume "int i < exception_quota cfg"
    with b show "d_policy (run_decisions cfg sha st cs ! i) =
                    (if fst (threshold_action cfg (c_risk (cs ! i))) = Block then PendingApproval
                     else fst (threshold_action cfg (c_risk (cs ! i))))" by simp
  }
  {
    assume q: "exception_quota cfg \<le> int i"
    with b show p: "d_policy (run_decisions cfg sha st cs ! i) = Block" by simp
    from run_decisions_action [OF i, of cfg sha st] p
    show "d_action (run_decisions cfg sha st cs ! i) =
            (if d_enforced (run_decisions cfg sha st cs ! i) then Block else Allow)"
      by simp
  }
qed

theorem C5_exception_quota_witness:
  "d_policy ((run_decisions (default_config\<lparr>exception_quota := 2\<rparr>) (\<lambda>_. []) empty_policy_state
       [\<lparr>c_risk = 10, c_token = ''t1'',
         c_meta = \<lparr>ms_exception_flag = True, ms_padded_size = None, ms_dest_count = None\<rparr>,
         c_client_ip = None, c_actor = Some ''alice'', c_now = 0\<rparr>,
        \<lparr>c_risk = 10, c_token = ''t2'',
         c_meta = \<lparr>ms_exception_flag = True, ms_padded_size = None, ms_dest_count = None\<rparr>,
         c_client_ip = None, c_actor = Some ''alice'', c_now = 1\<rparr>,
        \<lparr>c_risk = 10, c_token = ''t3'',
         c_meta = \<lparr>ms_exception_flag = True, ms_padded_size = None, ms_dest_count = None\<rparr>,
         c_client_ip = None, c_actor = Some ''alice'', c_now = 2\<rparr>]) ! 0) = PendingApproval
   \<and> d_policy ((run_decisions (default_config\<lparr>exception_quota := 2\<rparr>) (\<lambda>_. []) empty_policy_state
       [\<lparr>c_risk = 10, c_token = ''t1'',
         c_meta = \<lparr>ms_exception_flag = True, ms_padded_size = None, ms_dest_count = None\<rparr>,
         c_client_ip = None, c_actor = Some ''alice'', c_now = 0\<rparr>,
        \<lparr>c_risk = 10, c_token = ''t2'',
         c_meta = \<lparr>ms_exception_flag = True, ms_padded_size = None, ms_dest_count = None\<rparr>,
         c_client_ip = None, c_actor = Some ''alice'', c_now = 1\<rparr>,
        \<lparr>c_risk = 10, c_token = ''t3'',
         c_meta = \<lparr>ms_exception_flag = True, ms_padded_size = None, ms_dest_count = None\<rparr>,
         c_client_ip = None, c_actor = Some ''alice'', c_now = 2\<rparr>]) ! 1) = PendingApproval
   \<and> d_policy ((run_decisions (default_config\<lparr>exception_quota := 2\<rparr>) (\<lambda>_. []) empty_policy_state
       [\<lparr>c_risk = 10, c_token = ''t1'',
         c_meta = \<lparr>ms_exception_flag = True, ms_padded_size = None, ms_dest_count = None\<rparr>,
         c_client_ip = None, c_actor = Some ''alice'', c_now = 0\<rparr>,
        \<lparr>c_risk = 10, c_token = ''t2'',
         c_meta = \<lparr>ms_exception_flag = True, ms_padded_size = None, ms_dest_count = None\<rparr>,
         c_client_ip = None, c_actor = Some ''alice'', c_now = 1\<rparr>,
        \<lparr>c_risk = 10, c_token = ''t3'',
         c_meta = \<lparr>ms_exception_flag = True, ms_padded_size = None, ms_dest_count = None\<rparr>,
         c_client_ip = None, c_actor = Some ''alice'', c_now = 2\<rparr>]) ! 2) = Block
   \<and> d_action ((run_decisions (default_config\<lparr>exception_quota := 2\<rparr>) (\<lambda>_. []) empty_policy_state
       [\<lparr>c_risk = 10, c_token = ''t1'',
         c_meta = \<lparr>ms_exception_flag = True, ms_padded_size = None, ms_dest_count = None\<rparr>,
         c_client_ip = None, c_actor = Some ''alice'', c_now = 0\<rparr>,
        \<lparr>c_risk = 10, c_token = ''t2'',
         c_meta = \<lparr>ms_exception_flag = True, ms_padded_size = None, ms_dest_count = None\<rparr>,
         c_client_ip = None, c_actor = Some ''alice'', c_now = 1\<rparr>,
        \<lparr>c_risk = 10, c_token = ''t3'',
         c_meta = \<lparr>ms_exception_flag = True, ms_padded_size = None, ms_dest_count = None\<rparr>,
         c_client_ip = None, c_actor = Some ''alice'', c_now = 2\<rparr>]) ! 2) = Block
   \<and> int (length (filter (downgraded_in_window (default_config\<lparr>exception_quota := 2\<rparr>) ''alice'' 0)
        (zip ([\<lparr>c_risk = 10, c_token = ''t1'',
         c_meta = \<lparr>ms_exception_flag = True, ms_padded_size = None, ms_dest_count = None\<rparr>,
         c_client_ip = None, c_actor = Some ''alice'', c_now = 0\<rparr>,
        \<lparr>c_risk = 10, c_token = ''t2'',
         c_meta = \<lparr>ms_exception_flag = True, ms_padded_size = None, ms_dest_count = None\<rparr>,
         c_client_ip = None, c_actor = Some ''alice'', c_now = 1\<rparr>,
        \<lparr>c_risk = 10, c_token = ''t3'',
         c_meta = \<lparr>ms_exception_flag = True, ms_padded_size = None, ms_dest_count = None\<rparr>,
         c_client_ip = None, c_actor = Some ''alice'', c_now = 2\<rparr>]) (run_decisions (default_config\<lparr>exception_quota := 2\<rparr>) (\<lambda>_. []) empty_policy_state
       [\<lparr>c_risk = 10, c_token = ''t1'',
         c_meta = \<lparr>ms_exception_flag = True, ms_padded_size = None, ms_dest_count = None\<rparr>,
         c_client_ip = None, c_actor = Some ''alice'', c_now = 0\<rparr>,
        \<lparr>c_risk = 10, c_token = ''t2'',
         c_meta = \<lparr>ms_exception_flag = True, ms_padded_size = None, ms_dest_count = None\<rparr>,
         c_client_ip = None, c_actor = Some ''alice'', c_now = 1\<rparr>,
        \<lparr>c_risk = 10, c_token = ''t3'',
         c_meta = \<lparr>ms_exception_flag = True, ms_padded_size = None, ms_dest_count = None\<rparr>,
         c_client_ip = None, c_actor = Some ''alice'', c_now = 2\<rparr>])))) \<le> 2"
proof -
  let ?cfg = "default_config\<lparr>exception_quota := 2\<rparr>"
  let ?cs = "[\<lparr>c_risk = 10, c_token = ''t1'',
         c_meta = \<lparr>ms_exception_flag = True, ms_padded_size = None, ms_dest_count = None\<rparr>,
         c_client_ip = None, c_actor = Some ''alice'', c_now = 0\<rparr>,
        \<lparr>c_risk = 10, c_token = ''t2'',
         c_meta = \<lparr>ms_exception_flag = True, ms_padded_size = None, ms_dest_count = None\<rparr>,
         c_client_ip = None, c_actor = Some ''alice'', c_now = 1\<rparr>,
        \<lparr>c_risk = 10, c_token = ''t3'',
         c_meta = \<lparr>ms_exception_flag = True, ms_padded_size = None, ms_dest_count = None\<rparr>,
         c_client_ip = None, c_actor = Some ''alice'', c_now = 2\<rparr>]"
  let ?run = "run_decisions ?cfg (\<lambda>_. []) empty_policy_state ?cs"
  have srt: "sorted (map c_now ?cs)" by simp
  have emp: "exception_events empty_policy_state ''alice'' = []"
    by (simp add: empty_policy_state_def)
  have rel: "\<forall>c \<in> set ?cs. ms_exception_flag (c_meta c) \<and> quota_key (c_actor c) (c_token c) = ''alice''
                \<and> c_now c \<le> c_now (hd ?cs) + of_int (exception_window_sec ?cfg)"
    by (simp add: quota_key_def default_config_def)
  have q: "exception_quota ?cfg = 2" by simp
  have thr: "fst (threshold_action ?cfg 10) = Block"
    by (simp add: threshold_action_def default_config_def)
  have enf: "enforcement ?cfg (\<lambda>_. []) ''t3''"
    by (simp add: enforcement_def should_enforce_canary_def default_config_def)
  have e2: "d_enforced (?run ! 2)"
    using run_decisions_action [of 2 ?cs ?cfg "\<lambda>_. []" empty_policy_state] enf by simp
  note main = C5_exception_quota [OF srt, of ?cfg empty_policy_state "''alice''" 0
      "''alice''" 0 "\<lambda>_. []" empty_policy_state]
  from main have bound: "int (length (filter (downgraded_in_window ?cfg ''alice'' 0) (zip ?cs ?run))) \<le> 2"
    by simp
  from main emp rel have burst: "\<forall>i < length ?cs.
               (int i < exception_quota ?cfg \<longrightarrow>
                  d_policy (?run ! i) =
                    (if fst (threshold_action ?cfg (c_risk (?cs ! i))) = Block then PendingApproval
                     else fst (threshold_action ?cfg (c_risk (?cs ! i)))))
             \<and> (exception_quota ?cfg \<le> int i \<longrightarrow>
                  d_policy (?run ! i) = Block
                  \<and> d_action (?run ! i) = (if d_enforced (?run ! i) then Block else Allow))"
    by blast
  have p0: "d_policy (?run ! 0) = PendingApproval"
    using burst [rule_format, of 0] thr by (simp add: q)
  have p1: "d_policy (?run ! 1) = PendingApproval"
    using burst [rule_format, of 1] thr by (simp add: q)
  have p2: "d_policy (?run ! 2) = Block \<and> d_action (?run ! 2) = Block"
    using burst [rule_format, of 2] e2 by (simp add: q)
  from p0 p1 p2 bound show ?thesis by simp
qed

section \<open>Verified properties of the metadata sanitizer\<close>

lemma s6_patterns:
  "any_pattern_in sensitive_fields (str_lower ''user_id'')"
  "any_pattern_in sensitive_fields (str_lower ''email'')"
  "\<not> any_pattern_in sensitive_fields (str_lower ''padded_size'')"
  "\<not> any_pattern_in medium_risk_fields (str_lower ''padded_size'')"
  "any_pattern_in low_risk_fields (str_lower ''padded_size'')"
  "\<not> any_pattern_in sensitive_fields (str_lower ''timestamp'')"
  "any_pattern_in medium_risk_fields (str_lower ''timestamp'')"
  by code_simp+

lemma s6_classes:
  "classify_field ''user_id'' = Sensitive"
  "classify_field ''email'' = Sensitive"
  "classify_field ''padded_size'' = LowRisk"
  "classify_field ''timestamp'' = MediumRisk"
  by (simp_all add: classify_field_def s6_patterns)

lemma s6_analysis: "a_risk_score (analyze_metadata s6_metadata) = 1"
  by (simp add: analyze_metadata_def s6_metadata_def analyze_field_def assess_field_risk_def
      s6_patterns)

lemma s6_sanitize:
  "sanitize_metadata default_sanitizer_config sha rng i s6_metadata sensitive_field_threshold
     = Some ([(''padded_size'', VInt 2040),
              (''timestamp'', VInt (1700000000 + (int (rng i mod 10) - 5)))],
             Report \<lparr>original_fields = 4, sanitized_fields = 2,
                     removed_fields = [''user_id'', ''email''],
                     obfuscated_fields = [''timestamp''],
                     quantized_fields = [''padded_size''],
                     risk_score = 1, sanitization_applied = True,
                     final_risk_score = 1 / 5\<rparr>,
             Suc i)"
proof -
  have run: "sanitize_fields default_sanitizer_config sha rng 1 sensitive_field_threshold
        \<lparr>l_sanitized = [], l_removed = [], l_obfuscated = [], l_quantized = [],
         l_applied = False, l_rng = i\<rparr> s6_metadata
      = Some \<lparr>l_sanitized = [(''padded_size'', VInt 2040),
                              (''timestamp'', VInt (1700000000 + (int (rng i mod 10) - 5)))],
              l_removed = [''user_id'', ''email''], l_obfuscated = [''timestamp''],
              l_quantized = [''padded_size''], l_applied = True, l_rng = Suc i\<rparr>"
    by (simp add: s6_metadata_def sanitize_field_def s6_classes quantize_value_def
        obfuscate_value_def randbelow_def default_sanitizer_config_def)
  have fin: "calculate_final_risk_score [(''padded_size'', VInt 2040),
                (''timestamp'', VInt (1700000000 + (int (rng i mod 10) - 5)))] = 1 / 5"
    by (simp add: calculate_final_risk_score_def s6_patterns)
  have len: "length s6_metadata = 4" by (simp add: s6_metadata_def)
  have en: "sanitization_enabled default_sanitizer_config"
    by (simp add: default_sanitizer_config_def)
  show ?thesis
    unfolding sanitize_metadata_def Let_def s6_analysis run
    using en fin len by simp
qed

text \<open>
  C7.  As stated the scenario fails on two values: \<open>padded_size\<close> 2048 is floored to
  2040, not 2050, and \<open>timestamp\<close> is in the medium class, so it is obfuscated by a small
  random offset rather than floored to the minute (here, with the draw 0, to 1699999995).
\<close>

theorem C7_sanitize_scenario_counterexample:
  "(case sanitize_metadata default_sanitizer_config (\<lambda>_. []) (\<lambda>_. 0) 0 s6_metadata
          sensitive_field_threshold of
      None \<Rightarrow> False
    | Some (san, rep, j) \<Rightarrow>
        map_of san ''padded_size'' = Some (VInt 2040)
        \<and> map_of san ''padded_size'' \<noteq> Some (VInt 2050)
        \<and> map_of san ''timestamp'' = Some (VInt 1699999995)
        \<and> map_of san ''timestamp'' \<noteq> Some (VInt (1700000000 - 1700000000 mod 60)))"
  by (simp add: s6_sanitize)

text \<open>
  C7, amended.  Sanitizing the metadata of the scenario removes \<open>user_id\<close> and \<open>email\<close>,
  quantizes \<open>padded_size\<close> to 2040 (floor to a multiple of 10), obfuscates \<open>timestamp\<close>
  to 1700000000 plus an offset drawn from -5 to 4, and reports
  \<open>sanitization_applied = true\<close>, risk 1 and final risk 1/5, which is at most 0.3.
\<close>

theorem C7_sanitize_scenario:
  "sanitize_metadata default_sanitizer_config sha rng i s6_metadata sensitive_field_threshold
     = Some ([(''padded_size'', VInt 2040),
              (''timestamp'', VInt (1700000000 + (int (rng i mod 10) - 5)))],
             Report \<lparr>original_fields = 4, sanitized_fields = 2,
                     removed_fields = [''user_id'', ''email''],
                     obfuscated_fields = [''timestamp''],
                     quantized_fields = [''padded_size''],
                     risk_score = 1, sanitization_applied = True,
                     final_risk_score = 1 / 5\<rparr>,
             Suc i)
   \<and> - 5 \<le> int (rng i mod 10) - 5 \<and> int (rng i mod 10) - 5 \<le> 4
   \<and> (1 / 5 :: rat) \<le> 3 / 10"
proof -
  have "rng i mod 10 < 10" by simp
  then have "- 5 \<le> int (rng i mod 10) - 5 \<and> int (rng i mod 10) - 5 \<le> 4" by linarith
  then show ?thesis by (simp add: s6_sanitize)
qed












section \<open>Verified properties of the audit log\<close>

lemma hex_digit_mem: "hex_digit n \<in> set ''0123456789abcdef''"
  unfolding hex_digit_def by (rule nth_mem) simp

lemma hex_char_plain:
  "c \<in> set ''0123456789abcdef'' \<Longrightarrow>
     c \<noteq> CHR ''|'' \<and> \<not> py_isspace c \<and> c \<noteq> CHR 0x0A \<and> c \<noteq> CHR 0x0D"
  by (auto simp: py_isspace_def)

lemma hex_digit_plain:
  "hex_digit n \<noteq> CHR ''|'' \<and> \<not> py_isspace (hex_digit n)
     \<and> hex_digit n \<noteq> CHR 0x0A \<and> hex_digit n \<noteq> CHR 0x0D"
  using hex_digit_mem [of n] by (rule hex_char_plain)

lemma hex_of_bytes_digit: "c \<in> set (hex_of_bytes bs) \<Longrightarrow> \<exists>n. c = hex_digit n"
  by (auto simp: hex_of_bytes_def)

lemma checksum_plain:
  assumes "c \<in> set (calculate_checksum cfg mac d)"
  shows "c \<noteq> CHR ''|'' \<and> \<not> py_isspace c \<and> c \<noteq> CHR 0x0A \<and> c \<noteq> CHR 0x0D"
proof -
  from assms have "c \<in> set (hex_of_bytes (mac d))"
    by (auto simp: calculate_checksum_def dest: in_set_takeD split: if_splits)
  then obtain n where "c = hex_digit n" using hex_of_bytes_digit by blast
  then show ?thesis using hex_digit_plain [of n] by simp
qed

lemma universal_newlines_id: "CHR 0x0D \<notin> set s \<Longrightarrow> universal_newlines s = s"
  by (induction s rule: universal_newlines.induct) auto

lemma split_lines_first:
  "CHR 0x0A \<notin> set l \<Longrightarrow> split_lines (l @ CHR 0x0A # rest) = (l @ [CHR 0x0A]) # split_lines rest"
  by (induction l) auto

lemma strip_line:
  assumes "s \<noteq> []" and "\<not> py_isspace (hd s)" and "\<not> py_isspace (last s)"
  shows "strip (s @ [CHR 0x0A]) = s"
proof -
  have sp: "py_isspace (CHR 0x0A)" by (simp add: py_isspace_def)
  from assms(1,2) have a: "dropWhile py_isspace (s @ [CHR 0x0A]) = s @ [CHR 0x0A]"
    by (cases s) auto
  from assms(1,3) have "dropWhile py_isspace (rev s) = rev s"
    by (cases "rev s") (auto simp: last_rev [symmetric] hd_rev)
  with sp show ?thesis by (simp add: strip_def a)
qed

lemma rsplit_bar_last:
  assumes "CHR ''|'' \<notin> set c"
  shows "rsplit_bar (j @ CHR ''|'' # c) = (j, c)"
proof -
  have r: "rev (j @ CHR ''|'' # c) = rev c @ CHR ''|'' # rev j" by simp
  have nb: "\<And>x. x \<in> set (rev c) \<Longrightarrow> x \<noteq> CHR ''|''" using assms by auto
  have t: "takeWhile (\<lambda>x. x \<noteq> CHR ''|'') (rev c @ CHR ''|'' # rev j) = rev c"
    by (subst takeWhile_append2) (use nb in simp_all)
  have d: "dropWhile (\<lambda>x. x \<noteq> CHR ''|'') (rev c @ CHR ''|'' # rev j) = CHR ''|'' # rev j"
    by (subst dropWhile_append2) (use nb in simp_all)
  show ?thesis unfolding rsplit_bar_def r t d by simp
qed

lemma audit_line_tamper:
  "tamper_detection cfg \<Longrightarrow>
     audit_line cfg mac j = j @ CHR ''|'' # calculate_checksum cfg mac j"
  by (simp add: audit_line_def)

lemma audit_line_no_newline:
  assumes "tamper_detection cfg" and "json_text_ok j"
  shows "CHR 0x0A \<notin> set (audit_line cfg mac j) \<and> CHR 0x0D \<notin> set (audit_line cfg mac j)"
  using assms checksum_plain [of _ cfg mac j]
  by (auto simp: audit_line_tamper json_text_ok_def)

lemma strip_audit_line:
  assumes t: "tamper_detection cfg" and ok: "json_text_ok j"
  shows "strip (audit_line cfg mac j @ [CHR 0x0A]) = audit_line cfg mac j"
proof (rule strip_line)
  show "audit_line cfg mac j \<noteq> []" using t by (simp add: audit_line_tamper)
  have "hd (audit_line cfg mac j) = CHR ''{''"
    using t ok by (simp add: audit_line_tamper json_text_ok_def)
  then show "\<not> py_isspace (hd (audit_line cfg mac j))" by (simp add: py_isspace_def)
  show "\<not> py_isspace (last (audit_line cfg mac j))"
  proof (cases "calculate_checksum cfg mac j = []")
    case True
    then show ?thesis using t by (simp add: audit_line_tamper py_isspace_def)
  next
    case False
    then have "last (audit_line cfg mac j) \<in> set (calculate_checksum cfg mac j)"
      using t by (simp add: audit_line_tamper)
    then show ?thesis using checksum_plain by blast
  qed
qed

lemma count_entries_audit_lines:
  assumes t: "tamper_detection cfg" and ok: "\<forall>j \<in> set js. json_text_ok j"
  shows "count_entries cfg mac (map (\<lambda>j. audit_line cfg mac j @ [CHR 0x0A]) js) (v, i)
           = (v + length js, i)"
  using ok
proof (induction js arbitrary: v)
  case Nil
  then show ?case by simp
next
  case (Cons j js)
  then have okj: "json_text_ok j" and rest: "\<forall>j \<in> set js. json_text_ok j" by simp_all
  have s: "strip (audit_line cfg mac j @ [CHR 0x0A]) = audit_line cfg mac j"
    by (rule strip_audit_line [OF t okj])
  have ne: "audit_line cfg mac j \<noteq> []" and bar: "CHR ''|'' \<in> set (audit_line cfg mac j)"
    using t by (simp_all add: audit_line_tamper)
  have "CHR ''|'' \<notin> set (calculate_checksum cfg mac j)" using checksum_plain by blast
  then have sp: "rsplit_bar (audit_line cfg mac j) = (j, calculate_checksum cfg mac j)"
    using t by (simp add: audit_line_tamper rsplit_bar_last)
  have "count_entries cfg mac (map (\<lambda>j. audit_line cfg mac j @ [CHR 0x0A]) (j # js)) (v, i)
          = count_entries cfg mac (map (\<lambda>j. audit_line cfg mac j @ [CHR 0x0A]) js) (v + 1, i)"
    using ne bar by (simp add: s sp)
  also have "\<dots> = (v + 1 + length js, i)" by (rule Cons.IH [OF rest])
  finally show ?case by simp
qed

lemma split_lines_audit:
  assumes "\<forall>l \<in> set ls. CHR 0x0A \<notin> set l"
  shows "split_lines (concat (map (\<lambda>l. l @ [CHR 0x0A]) ls)) = map (\<lambda>l. l @ [CHR 0x0A]) ls"
  using assms
proof (induction ls)
  case Nil
  then show ?case by simp
next
  case (Cons l ls)
  then have "CHR 0x0A \<notin> set l" by simp
  from split_lines_first [OF this, of "concat (map (\<lambda>l. l @ [CHR 0x0A]) ls)"] Cons
  show ?case by simp
qed

lemma readlines_audit:
  assumes "\<forall>l \<in> set ls. CHR 0x0A \<notin> set l \<and> CHR 0x0D \<notin> set l"
  shows "readlines (concat (map (\<lambda>l. l @ [CHR 0x0A]) ls)) = map (\<lambda>l. l @ [CHR 0x0A]) ls"
proof -
  have "CHR 0x0D \<notin> set (concat (map (\<lambda>l. l @ [CHR 0x0A]) ls))" using assms by auto
  then have "universal_newlines (concat (map (\<lambda>l. l @ [CHR 0x0A]) ls))
               = concat (map (\<lambda>l. l @ [CHR 0x0A]) ls)"
    by (rule universal_newlines_id)
  moreover have "\<forall>l \<in> set ls. CHR 0x0A \<notin> set l" using assms by simp
  ultimately show ?thesis by (simp add: readlines_def split_lines_audit)
qed

text \<open>Without rotation every write appends its line to the active file.\<close>

lemma writes_without_rotation:
  assumes "log_size st + sum_list (map (\<lambda>e. utf8_len (audit_line cfg mac (dumps e))) es)
             \<le> audit_max_size cfg"
  shows "log_file (foldl (write_log_entry cfg dumps mac) st es)
           = (if es = [] then log_file st
              else Some (log_content st
                     @ concat (map (\<lambda>e. audit_line cfg mac (dumps e) @ [CHR 0x0A]) es)))"
  using assms
proof (induction es arbitrary: st)
  case Nil
  then show ?case by simp
next
  case (Cons e es)
  let ?st1 = "st\<lparr>log_file := Some (log_content st @ audit_line cfg mac (dumps e) @ [CHR 0x0A]),
                  log_size := log_size st + utf8_len (audit_line cfg mac (dumps e))\<rparr>"
  have small: "log_size st + utf8_len (audit_line cfg mac (dumps e)) \<le> audit_max_size cfg"
    using Cons.prems by simp
  then have w: "write_log_entry cfg dumps mac st e = ?st1"
    by (simp add: write_log_entry_def Let_def)
  have c1: "log_content ?st1 = log_content st @ audit_line cfg mac (dumps e) @ [CHR 0x0A]"
    by (simp add: log_content_def)
  have "log_size ?st1 + sum_list (map (\<lambda>e. utf8_len (audit_line cfg mac (dumps e))) es)
          \<le> audit_max_size cfg"
    using Cons.prems by simp
  from Cons.IH [OF this] show ?case by (simp add: w c1)
qed

text \<open>Reading a file that starts with complete lines: the lines of the two parts.\<close>

lemma universal_newlines_append:
  "xs = [] \<or> last xs \<noteq> CHR 0x0D \<Longrightarrow>
     universal_newlines (xs @ ys) = universal_newlines xs @ universal_newlines ys"
proof (induction xs rule: universal_newlines.induct)
  case 1
  then show ?case by simp
next
  case (2 c)
  then show ?case by (cases ys) simp_all
next
  case (3 c d ds)
  then show ?case by (cases ds) (auto split: if_splits)
qed

lemma universal_newlines_last:
  "xs \<noteq> [] \<Longrightarrow> last xs = CHR 0x0A \<Longrightarrow>
     universal_newlines xs \<noteq> [] \<and> last (universal_newlines xs) = CHR 0x0A"
proof (induction xs rule: universal_newlines.induct)
  case 1
  then show ?case by simp
next
  case (2 c)
  then show ?case by simp
next
  case (3 c d ds)
  then show ?case by (cases ds) (auto split: if_splits)
qed

lemma split_lines_empty: "split_lines xs = [] \<longleftrightarrow> xs = []"
  by (cases xs) (auto split: list.splits)

lemma split_lines_append:
  "xs = [] \<or> last xs = CHR 0x0A \<Longrightarrow> split_lines (xs @ ys) = split_lines xs @ split_lines ys"
proof (induction xs)
  case Nil
  then show ?case by simp
next
  case (Cons c cs)
  show ?case
  proof (cases "c = CHR 0x0A")
    case True
    have "cs = [] \<or> last cs = CHR 0x0A" using Cons.prems by (auto split: if_splits)
    from Cons.IH [OF this] True show ?thesis by simp
  next
    case False
    with Cons.prems have ne: "cs \<noteq> []" and l: "last cs = CHR 0x0A" by (auto split: if_splits)
    from Cons.IH l have ih: "split_lines (cs @ ys) = split_lines cs @ split_lines ys" by simp
    from ne obtain l0 ls where sp: "split_lines cs = l0 # ls"
      using split_lines_empty [of cs] by (cases "split_lines cs") auto
    show ?thesis using False by (simp add: ih sp)
  qed
qed

lemma readlines_append:
  assumes "complete_lines pre"
  shows "readlines (pre @ rest) = readlines pre @ readlines rest"
proof (cases "pre = []")
  case True
  then show ?thesis by (simp add: readlines_def)
next
  case False
  with assms have l: "last pre = CHR 0x0A" by (simp add: complete_lines_def)
  then have "pre = [] \<or> last pre \<noteq> CHR 0x0D" by simp
  then have u: "universal_newlines (pre @ rest) = universal_newlines pre @ universal_newlines rest"
    by (rule universal_newlines_append)
  from universal_newlines_last [OF False l]
  have "universal_newlines pre = [] \<or> last (universal_newlines pre) = CHR 0x0A" by simp
  then show ?thesis unfolding readlines_def u by (rule split_lines_append)
qed

lemma count_entries_append:
  "count_entries cfg mac (xs @ ys) (v, i) = count_entries cfg mac ys (count_entries cfg mac xs (v, i))"
  by (induction xs arbitrary: v i) (simp_all add: Let_def split_beta)

text \<open>
  C9.  As stated the claim fails for a log that already holds records of an earlier
  process.  The file is opened for appending and never truncated, and every process draws
  its own tamper key.  Here a first process (key function giving the bytes 11 22) appends
  one record; a second process (byte counter back at 0, key function giving AB CD)
  appends another and verifies: nobody modified or rotated the file, yet the status is
  "tampered" with one invalid entry.
\<close>

theorem C9_audit_roundtrip_counterexample:
  "verify_log_integrity \<lparr>audit_max_size = 10485760, audit_rotation_count = 5, tamper_detection = True\<rparr> (\<lambda>_. [0xAB, 0xCD])
     (write_log_entry \<lparr>audit_max_size = 10485760, audit_rotation_count = 5, tamper_detection = True\<rparr> (\<lambda>n :: nat. if n = 0 then [CHR ''{'', CHR 0x22, CHR ''a'', CHR 0x22, CHR '':'', CHR ''1'', CHR ''}'']
                          else [CHR ''{'', CHR 0x22, CHR ''b'', CHR 0x22, CHR '':'', CHR 0x22, CHR ''x'',
                                CHR ''|'', CHR ''y'', CHR 0x22, CHR ''}'']) (\<lambda>_. [0xAB, 0xCD])
        ((write_log_entry \<lparr>audit_max_size = 10485760, audit_rotation_count = 5, tamper_detection = True\<rparr> (\<lambda>n :: nat. if n = 0 then [CHR ''{'', CHR 0x22, CHR ''a'', CHR 0x22, CHR '':'', CHR ''1'', CHR ''}'']
                          else [CHR ''{'', CHR 0x22, CHR ''b'', CHR 0x22, CHR '':'', CHR 0x22, CHR ''x'',
                                CHR ''|'', CHR ''y'', CHR 0x22, CHR ''}'']) (\<lambda>_. [0x11, 0x22]) new_audit 0)\<lparr>log_size := 0\<rparr>)
        1)
   = \<lparr>v_status = Tampered, valid_entries = 1, invalid_entries = 1\<rparr>"
  by (simp add: verify_log_integrity_def write_log_entry_def new_audit_def log_content_def
      audit_line_def calculate_checksum_def hex_of_bytes_def hex_digit_def utf8_len_def
      readlines_def strip_def py_isspace_def rsplit_bar_def Let_def)

text \<open>
  C9, amended.  With tamper detection on, let the active log hold complete lines (or not
  exist), and let the writer append a non-empty sequence of records without the size limit
  being exceeded (no rotation) and with nothing else touching the file.  Then the verifier
  counts every appended record as valid: the valid count is that of the earlier content
  plus the number of records, the invalid count is that of the earlier content, and the
  status is "verified" exactly when the earlier content has no invalid line.  In
  particular, from a log that held nothing before, the status is "verified" with as many
  valid entries as records and no invalid one.
\<close>

theorem C9_audit_roundtrip:
  assumes t: "tamper_detection cfg"
    and ok: "\<forall>e \<in> set es. json_text_ok (dumps e)"
    and ne: "es \<noteq> []"
    and small: "log_size st + sum_list (map (\<lambda>e. utf8_len (audit_line cfg mac (dumps e))) es)
                  \<le> audit_max_size cfg"
    and pre: "complete_lines (log_content st)"
  shows "verify_log_integrity cfg mac (foldl (write_log_entry cfg dumps mac) st es)
           = \<lparr>v_status = (if snd (count_entries cfg mac (readlines (log_content st)) (0, 0)) = 0
                          then Verified else Tampered),
              valid_entries = fst (count_entries cfg mac (readlines (log_content st)) (0, 0))
                                + length es,
              invalid_entries = snd (count_entries cfg mac (readlines (log_content st)) (0, 0))\<rparr>
         \<and> (log_content st = [] \<longrightarrow>
              verify_log_integrity cfg mac (foldl (write_log_entry cfg dumps mac) st es)
                = \<lparr>v_status = Verified, valid_entries = length es, invalid_entries = 0\<rparr>)"
proof -
  let ?js = "map dumps es"
  let ?ls = "map (audit_line cfg mac) ?js"
  let ?new = "concat (map (\<lambda>l. l @ [CHR 0x0A]) ?ls)"
  obtain v0 i0 where c0: "count_entries cfg mac (readlines (log_content st)) (0, 0) = (v0, i0)"
    by (cases "count_entries cfg mac (readlines (log_content st)) (0, 0)")
  from writes_without_rotation [OF small] ne
  have "log_file (foldl (write_log_entry cfg dumps mac) st es)
          = Some (log_content st @ concat (map (\<lambda>e. audit_line cfg mac (dumps e) @ [CHR 0x0A]) es))"
    by simp
  also have "concat (map (\<lambda>e. audit_line cfg mac (dumps e) @ [CHR 0x0A]) es) = ?new"
    by (simp add: comp_def)
  finally have content: "log_file (foldl (write_log_entry cfg dumps mac) st es)
                           = Some (log_content st @ ?new)" .
  have okj: "\<forall>j \<in> set ?js. json_text_ok j" using ok by simp
  have "\<forall>l \<in> set ?ls. CHR 0x0A \<notin> set l \<and> CHR 0x0D \<notin> set l"
    using audit_line_no_newline [OF t] okj by auto
  then have rl: "readlines ?new = map (\<lambda>l. l @ [CHR 0x0A]) ?ls"
    by (rule readlines_audit)
  have "count_entries cfg mac (map (\<lambda>j. audit_line cfg mac j @ [CHR 0x0A]) ?js) (v0, i0)
          = (v0 + length ?js, i0)"
    by (rule count_entries_audit_lines [OF t okj])
  also have "map (\<lambda>j. audit_line cfg mac j @ [CHR 0x0A]) ?js = map (\<lambda>l. l @ [CHR 0x0A]) ?ls"
    by (simp add: comp_def)
  finally have cn: "count_entries cfg mac (readlines ?new) (v0, i0) = (v0 + length es, i0)"
    by (simp only: rl length_map)
  have "count_entries cfg mac (readlines (log_content st @ ?new)) (0, 0)
          = count_entries cfg mac (readlines ?new)
              (count_entries cfg mac (readlines (log_content st)) (0, 0))"
    by (simp only: readlines_append [OF pre] count_entries_append)
  then have total: "count_entries cfg mac (readlines (log_content st @ ?new)) (0, 0)
                      = (v0 + length es, i0)"
    by (simp only: c0 cn)
  obtain content where c: "log_file (foldl (write_log_entry cfg dumps mac) st es) = Some content"
    and k: "count_entries cfg mac (readlines content) (0, 0) = (v0 + length es, i0)"
    using content total by blast
  have main: "verify_log_integrity cfg mac (foldl (write_log_entry cfg dumps mac) st es)
           = \<lparr>v_status = (if i0 = 0 then Verified else Tampered),
              valid_entries = v0 + length es, invalid_entries = i0\<rparr>"
    using t c k by (simp add: verify_log_integrity_def)
  have fresh: "log_content st = [] \<Longrightarrow> v0 = 0 \<and> i0 = 0"
    using c0 by (simp add: readlines_def)
  show ?thesis using main fresh by (auto simp: c0)
qed

theorem C9_audit_roundtrip_witness:
  "verify_log_integrity \<lparr>audit_max_size = 10485760, audit_rotation_count = 5, tamper_detection = True\<rparr>
     (\<lambda>_. [0xAB, 0xCD])
     (foldl (write_log_entry
               \<lparr>audit_max_size = 10485760, audit_rotation_count = 5, tamper_detection = True\<rparr>
               (\<lambda>n :: nat. if n = 0 then [CHR ''{'', CHR 0x22, CHR ''a'', CHR 0x22, CHR '':'', CHR ''1'', CHR ''}'']
                          else [CHR ''{'', CHR 0x22, CHR ''b'', CHR 0x22, CHR '':'', CHR 0x22, CHR ''x'',
                                CHR ''|'', CHR ''y'', CHR 0x22, CHR ''}''])
               (\<lambda>_. [0xAB, 0xCD]))
        new_audit [0, 1])
   = \<lparr>v_status = Verified, valid_entries = 2, invalid_entries = 0\<rparr>"
proof -
  let ?cfg = "\<lparr>audit_max_size = 10485760, audit_rotation_count = 5, tamper_detection = True\<rparr>"
  let ?dumps = "(\<lambda>n :: nat. if n = 0 then [CHR ''{'', CHR 0x22, CHR ''a'', CHR 0x22, CHR '':'', CHR ''1'', CHR ''}'']
                          else [CHR ''{'', CHR 0x22, CHR ''b'', CHR 0x22, CHR '':'', CHR 0x22, CHR ''x'',
                                CHR ''|'', CHR ''y'', CHR 0x22, CHR ''}''])"
  let ?mac = "\<lambda>_ :: string. [0xAB, 0xCD] :: bytes"
  have t: "tamper_detection ?cfg" by simp
  have ok: "\<forall>e \<in> set [0, 1 :: nat]. json_text_ok (?dumps e)" by (simp add: json_text_ok_def)
  have ne: "[0, 1 :: nat] \<noteq> []" by simp
  have small: "log_size new_audit
                 + sum_list (map (\<lambda>e. utf8_len (audit_line ?cfg ?mac (?dumps e))) [0, 1 :: nat])
                 \<le> audit_max_size ?cfg"
    by (simp add: new_audit_def utf8_len_def audit_line_def calculate_checksum_def
        hex_of_bytes_def hex_digit_def)
  have emp: "log_content new_audit = []" by (simp add: new_audit_def log_content_def)
  have pre: "complete_lines (log_content new_audit)" by (simp add: emp complete_lines_def)
  from C9_audit_roundtrip [OF t ok ne small pre] emp show ?thesis
    by (simp add: readlines_def)
qed

end
